theory Spec2Isabelle
  imports Complex_Main
begin

section \<open>Data model\<close>

text \<open>
  The notebook \<^verbatim>\<open>Sonify_Weekly_Traffic_to_csv.ipynb\<close> is a sequence of pandas cells.
  A value of a DataFrame is a number, a text or a missing value. Numbers are float64 in
  pandas; they are read here as reals (no rounding error, no signed zero, no infinity in
  the input).
\<close>

datatype cell = Num real | Txt string | NaN

datatype error =
    EmptyDataError
  | ParserError
  | NoObjectsToConcatenate
  | KeyError string
  | TypeError
  | LengthMismatch
  | CannotCutEmptyArray
  | BinEdgesNotUnique
  | DateParseError

text \<open>A DataFrame: its column labels and its rows, every row as long as the labels.\<close>

record frame =
  columns :: "string list"
  rows :: "cell list list"

text \<open>
  An input file as \<^verbatim>\<open>pd.read_csv\<close> tokenises it: the first line, and the lines after
  it with the values pandas infers for their fields (in a file pandas has read, a column
  holds numbers and missing values, or texts and missing values). Blank lines, which
  pandas skips, are not among the data lines.
\<close>

record csv_file =
  header_line :: "string list"
  data_lines :: "cell list list"

section \<open>Code Block 1: loading and cleaning\<close>

definition pad :: "nat \<Rightarrow> cell list \<Rightarrow> cell list" where
  "pad n r = r @ replicate (n - length r) NaN"

text \<open>
  \<^verbatim>\<open>pd.read_csv(file)\<close> with its default \<^verbatim>\<open>header='infer'\<close>: the first line gives the
  column labels and is not a row of the frame. A file with no line raises
  \<^verbatim>\<open>EmptyDataError\<close>. The width of the table is the number of fields of the header or
  of the first data line, whichever is greater: a longer line raises \<^verbatim>\<open>ParserError\<close>
  (``Expected n fields, saw m''), a shorter line is filled with missing values at its
  end. When the first data line is longer than the header, pandas takes the surplus
  leading fields of every line as the row index, which is no column of the frame.
  (The renaming of repeated labels is not modelled: the labels of a header are taken as
  they are.)
\<close>

definition table_width :: "csv_file \<Rightarrow> nat" where
  "table_width file =
     (case data_lines file of
        [] \<Rightarrow> length (header_line file)
      | r # rs \<Rightarrow> max (length (header_line file)) (length r))"

definition data_rows :: "csv_file \<Rightarrow> cell list list" where
  "data_rows file =
     map (\<lambda>r. drop (table_width file - length (header_line file)) (pad (table_width file) r))
       (data_lines file)"

definition read_csv :: "csv_file \<Rightarrow> error + frame" where
  "read_csv file =
     (if header_line file = [] then Inl EmptyDataError
      else if list_ex (\<lambda>r. table_width file < length r) (data_lines file)
        then Inl ParserError
      else Inr \<lparr>columns = header_line file, rows = data_rows file\<rparr>)"

text \<open>\<^verbatim>\<open>df_temp.iloc[1:]\<close>: every row but the first.\<close>

definition iloc_from :: "nat \<Rightarrow> frame \<Rightarrow> frame" where
  "iloc_from n df = df\<lparr>rows := drop n (rows df)\<rparr>"

text \<open>
  \<^verbatim>\<open>df_temp[df_temp.iloc[:, 2] != 0]\<close>: the rows whose third value is not the number 0.
  A text and a missing value both differ from 0.
\<close>

definition third_nonzero :: "cell list \<Rightarrow> bool" where
  "third_nonzero r = (r ! 2 \<noteq> Num 0)"

definition drop_zero_third :: "frame \<Rightarrow> frame" where
  "drop_zero_third df = df\<lparr>rows := filter third_nonzero (rows df)\<rparr>"

text \<open>The body of the \<^verbatim>\<open>for file in files\<close> loop, after the file is read.\<close>

definition clean_file :: "bool \<Rightarrow> frame \<Rightarrow> frame" where
  "clean_file header_flag df_temp =
     (let df_temp1 = (if \<not> header_flag then df_temp else iloc_from 1 df_temp)
      in if 2 < length (columns df_temp1) then drop_zero_third df_temp1 else df_temp1)"

text \<open>
  The loop: \<^verbatim>\<open>header_flag\<close> is False for the first file only, \<^verbatim>\<open>df_list\<close> collects
  the cleaned frames in the order of \<^verbatim>\<open>files\<close>.
\<close>

fun ingest :: "bool \<Rightarrow> frame list \<Rightarrow> csv_file list \<Rightarrow> error + frame list" where
  "ingest header_flag df_list [] = Inr df_list"
| "ingest header_flag df_list (file # files) =
     (case read_csv file of
        Inl e \<Rightarrow> Inl e
      | Inr df_temp \<Rightarrow> ingest True (df_list @ [clean_file header_flag df_temp]) files)"

text \<open>
  \<^verbatim>\<open>pd.concat(df_list, ignore_index=True)\<close>: an empty list raises
  \<^verbatim>\<open>ValueError: No objects to concatenate\<close>. Otherwise the columns are the labels of
  all frames in order of first appearance, and a row has a missing value at a label its
  frame does not have.
\<close>

fun index_of :: "string \<Rightarrow> string list \<Rightarrow> nat option" where
  "index_of c [] = None"
| "index_of c (x # xs) =
     (if c = x then Some 0 else map_option Suc (index_of c xs))"

definition union_columns :: "frame list \<Rightarrow> string list" where
  "union_columns dfs = rev (remdups (rev (concat (map columns dfs))))"

definition reindex_row :: "string list \<Rightarrow> frame \<Rightarrow> cell list \<Rightarrow> cell list" where
  "reindex_row cols df r =
     map (\<lambda>c. case index_of c (columns df) of None \<Rightarrow> NaN | Some i \<Rightarrow> r ! i) cols"

definition pd_concat :: "frame list \<Rightarrow> error + frame" where
  "pd_concat dfs =
     (if dfs = [] then Inl NoObjectsToConcatenate
      else Inr \<lparr>columns = union_columns dfs,
                rows = concat (map (\<lambda>df. map (reindex_row (union_columns dfs) df) (rows df)) dfs)\<rparr>)"

text \<open>
  \<^verbatim>\<open>df.sort_values('Time', ascending=True)\<close>. A missing label raises \<^verbatim>\<open>KeyError\<close>; a
  column holding both numbers and texts cannot be compared (\<^verbatim>\<open>TypeError\<close>). Texts are
  compared character by character, missing values go last. The order pandas gives to
  rows with equal keys is not fixed by its default sort; the model keeps their order.
\<close>

fun str_le :: "string \<Rightarrow> string \<Rightarrow> bool" where
  "str_le [] t = True"
| "str_le (c # s) [] = False"
| "str_le (c # s) (d # t) =
     ((of_char c :: nat) < of_char d \<or> (c = d \<and> str_le s t))"

fun cell_le :: "cell \<Rightarrow> cell \<Rightarrow> bool" where
  "cell_le (Num x) (Num y) = (x \<le> y)"
| "cell_le (Txt s) (Txt t) = str_le s t"
| "cell_le NaN NaN = True"
| "cell_le NaN c = False"
| "cell_le c NaN = True"
| "cell_le (Num x) (Txt t) = True"
| "cell_le (Txt s) (Num y) = False"

fun insort_row :: "nat \<Rightarrow> cell list \<Rightarrow> cell list list \<Rightarrow> cell list list" where
  "insort_row i r [] = [r]"
| "insort_row i r (q # qs) =
     (if cell_le (r ! i) (q ! i) then r # q # qs else q # insort_row i r qs)"

definition sort_rows :: "nat \<Rightarrow> cell list list \<Rightarrow> cell list list" where
  "sort_rows i rs = foldr (insort_row i) rs []"

fun is_num :: "cell \<Rightarrow> bool" where
  "is_num (Num x) = True"
| "is_num c = False"

fun is_txt :: "cell \<Rightarrow> bool" where
  "is_txt (Txt s) = True"
| "is_txt c = False"

definition sort_values :: "string \<Rightarrow> frame \<Rightarrow> error + frame" where
  "sort_values by df =
     (case index_of by (columns df) of
        None \<Rightarrow> Inl (KeyError by)
      | Some i \<Rightarrow>
          if list_ex (\<lambda>r. is_num (r ! i)) (rows df) \<and> list_ex (\<lambda>r. is_txt (r ! i)) (rows df)
          then Inl TypeError
          else Inr (df\<lparr>rows := sort_rows i (rows df)\<rparr>))"

text \<open>\<^verbatim>\<open>df.columns = [...]\<close> raises \<^verbatim>\<open>ValueError\<close> unless the frame has as many columns.\<close>

definition set_columns :: "string list \<Rightarrow> frame \<Rightarrow> error + frame" where
  "set_columns names df =
     (if length names \<noteq> length (columns df) then Inl LengthMismatch
      else Inr (df\<lparr>columns := names\<rparr>))"

text \<open>The whole cell: the Combined Daily Table, or the exception that stops the run.\<close>

definition load_and_clean :: "csv_file list \<Rightarrow> error + frame" where
  "load_and_clean files =
     (case ingest False [] files of
        Inl e \<Rightarrow> Inl e
      | Inr df_list \<Rightarrow>
          (case pd_concat df_list of
             Inl e \<Rightarrow> Inl e
           | Inr df \<Rightarrow>
               (case sort_values ''Time'' df of
                  Inl e \<Rightarrow> Inl e
                | Inr df' \<Rightarrow> set_columns [''Time'', ''in'', ''out''] df')))"

text \<open>
  What holds of every frame the loop collects when each file has the header \<open>h\<close> of
  more than two columns: its labels are \<open>h\<close>, its rows are as long as \<open>h\<close>, and no row
  has the number 0 as third value.
\<close>

definition clean_frame :: "string list \<Rightarrow> frame \<Rightarrow> bool" where
  "clean_frame h d \<longleftrightarrow>
     columns d = h \<and> list_all (\<lambda>r. length r = length h \<and> third_nonzero r) (rows d)"

section \<open>Code Block 2: time-based features\<close>

text \<open>
  A parsed \<^verbatim>\<open>Time\<close> value is a calendar date (the time of day plays no part in what
  follows) or \<^verbatim>\<open>NaT\<close>, written \<open>None\<close>. The calendar accessors of pandas are modelled
  by the proleptic Gregorian day count.
\<close>

record date =
  year :: int
  month :: nat
  day :: nat

definition is_leap :: "int \<Rightarrow> bool" where
  "is_leap y = (y mod 4 = 0 \<and> (y mod 100 \<noteq> 0 \<or> y mod 400 = 0))"

definition days_in_month :: "int \<Rightarrow> nat \<Rightarrow> nat" where
  "days_in_month y m =
     (if m = 2 then (if is_leap y then 29 else 28)
      else if m = 4 \<or> m = 6 \<or> m = 9 \<or> m = 11 then 30 else 31)"

definition days_before_year :: "int \<Rightarrow> int" where
  "days_before_year y = (y - 1) * 365 + (y - 1) div 4 - (y - 1) div 100 + (y - 1) div 400"

definition days_before_month :: "int \<Rightarrow> nat \<Rightarrow> nat" where
  "days_before_month y m = sum_list (map (days_in_month y) [1..<m])"

definition ordinal :: "date \<Rightarrow> int" where
  "ordinal d = days_before_year (year d) + int (days_before_month (year d) (month d)) + int (day d)"

text \<open>\<^verbatim>\<open>dt.dayofweek\<close>: 0 is Monday, 6 is Sunday.\<close>

definition dayofweek :: "date \<Rightarrow> nat" where
  "dayofweek d = nat ((ordinal d + 6) mod 7)"

definition day_name :: "date \<Rightarrow> string" where
  "day_name d =
     [''Monday'', ''Tuesday'', ''Wednesday'', ''Thursday'', ''Friday'', ''Saturday'', ''Sunday'']
       ! dayofweek d"

definition is_month_start :: "date \<Rightarrow> bool" where
  "is_month_start d = (day d = 1)"

definition is_year_start :: "date \<Rightarrow> bool" where
  "is_year_start d = (month d = 1 \<and> day d = 1)"

text \<open>\<^verbatim>\<open>dt.isocalendar().week\<close>: the ISO 8601 week of the date, from 1 to 53.\<close>

definition isoweek1monday :: "int \<Rightarrow> int" where
  "isoweek1monday y =
     (let firstday = ordinal \<lparr>year = y, month = 1, day = 1\<rparr>;
          firstweekday = (firstday + 6) mod 7;
          week1monday = firstday - firstweekday
      in if 3 < firstweekday then week1monday + 7 else week1monday)"

definition isocalendar_week :: "date \<Rightarrow> nat" where
  "isocalendar_week d =
     (let today = ordinal d;
          week = (today - isoweek1monday (year d)) div 7
      in if week < 0 then nat ((today - isoweek1monday (year d - 1)) div 7 + 1)
         else if 52 \<le> week \<and> isoweek1monday (year d + 1) \<le> today then 1
         else nat (week + 1))"

text \<open>A row of the daily table after the feature cell.\<close>

record daily =
  Time :: "date option"
  in_col :: cell
  out_col :: cell
  Week_Start :: int
  Month_Start :: int
  Year_Start :: int
  Week_Number :: "nat option"
  Year :: "int option"

text \<open>
  \<^verbatim>\<open>np.where(cond, 256, 0)\<close> row by row. On \<^verbatim>\<open>NaT\<close> the three conditions are False and
  the week and the year are missing.
\<close>

definition time_features :: "date option \<Rightarrow> cell \<Rightarrow> cell \<Rightarrow> daily" where
  "time_features t i out =
     \<lparr>Time = t, in_col = i, out_col = out,
      Week_Start = (if map_option day_name t = Some ''Monday'' then 256 else 0),
      Month_Start = (if map_option is_month_start t = Some True then 256 else 0),
      Year_Start = (if map_option is_year_start t = Some True then 256 else 0),
      Week_Number = map_option isocalendar_week t,
      Year = map_option year t\<rparr>"

text \<open>
  \<^verbatim>\<open>pd.to_datetime(df['Time'], format='mixed')\<close> is the parameter \<open>to_datetime\<close>: it
  gives a date, \<^verbatim>\<open>NaT\<close>, or fails on a value it cannot parse, which stops the cell.
\<close>

fun derive_rows :: "(cell \<Rightarrow> error + date option) \<Rightarrow> cell list list \<Rightarrow> error + daily list" where
  "derive_rows to_datetime [] = Inr []"
| "derive_rows to_datetime (r # rs) =
     (case to_datetime (r ! 0) of
        Inl e \<Rightarrow> Inl e
      | Inr t \<Rightarrow>
          (case derive_rows to_datetime rs of
             Inl e \<Rightarrow> Inl e
           | Inr ds \<Rightarrow> Inr (time_features t (r ! 1) (r ! 2) # ds)))"

definition derive_time_features :: "(cell \<Rightarrow> error + date option) \<Rightarrow> frame \<Rightarrow> error + daily list" where
  "derive_time_features to_datetime df =
     (if columns df \<noteq> [''Time'', ''in'', ''out''] then Inl (KeyError ''Time'')
      else derive_rows to_datetime (rows df))"

section \<open>Code Block 3: grouping by week\<close>

text \<open>
  A weekly value is a float: a real, or \<open>None\<close> for \<^verbatim>\<open>NaN\<close>.
\<close>

record weekly =
  Year_w :: int
  Week_Number_w :: nat
  in_mean :: "real option"
  out_mean :: "real option"
  Year_Start_w :: int
  Month_Start_w :: int

text \<open>The group key of a row; \<^verbatim>\<open>groupby\<close> drops the rows whose key is missing.\<close>

definition group_key :: "daily \<Rightarrow> (int \<times> nat) option" where
  "group_key d =
     (case (Year d, Week_Number d) of
        (Some y, Some w) \<Rightarrow> Some (y, w)
      | _ \<Rightarrow> None)"

fun present_keys :: "daily list \<Rightarrow> (int \<times> nat) list" where
  "present_keys [] = []"
| "present_keys (d # ds) =
     (case group_key d of None \<Rightarrow> present_keys ds | Some k \<Rightarrow> k # present_keys ds)"

text \<open>The group keys come out sorted: by \<^verbatim>\<open>Year\<close>, then by \<^verbatim>\<open>Week_Number\<close>.\<close>

definition key_le :: "int \<times> nat \<Rightarrow> int \<times> nat \<Rightarrow> bool" where
  "key_le a b = (fst a < fst b \<or> (fst a = fst b \<and> snd a \<le> snd b))"

fun insort_keys :: "int \<times> nat \<Rightarrow> (int \<times> nat) list \<Rightarrow> (int \<times> nat) list" where
  "insort_keys k [] = [k]"
| "insort_keys k (q # qs) = (if key_le k q then k # q # qs else q # insort_keys k qs)"

definition sort_keys :: "(int \<times> nat) list \<Rightarrow> (int \<times> nat) list" where
  "sort_keys ks = foldr insort_keys ks []"

definition group_keys :: "daily list \<Rightarrow> (int \<times> nat) list" where
  "group_keys df = sort_keys (remdups (present_keys df))"

definition get_group :: "daily list \<Rightarrow> int \<times> nat \<Rightarrow> daily list" where
  "get_group df k = filter (\<lambda>d. group_key d = Some k) df"

text \<open>
  \<^verbatim>\<open>'mean'\<close> skips missing values, gives \<^verbatim>\<open>NaN\<close> when nothing is left, and raises
  \<^verbatim>\<open>TypeError\<close> on a text.
\<close>

fun numbers :: "cell list \<Rightarrow> real list" where
  "numbers [] = []"
| "numbers (Num x # cs) = x # numbers cs"
| "numbers (c # cs) = numbers cs"

definition mean :: "cell list \<Rightarrow> error + real option" where
  "mean cs =
     (if list_ex is_txt cs then Inl TypeError
      else if numbers cs = [] then Inr None
      else Inr (Some (sum_list (numbers cs) / real (length (numbers cs)))))"

text \<open>\<^verbatim>\<open>'max'\<close> of an integer flag column over a group (a group has at least one row).\<close>

fun max_flag :: "int list \<Rightarrow> int" where
  "max_flag [] = 0"
| "max_flag [x] = x"
| "max_flag (x # xs) = max x (max_flag xs)"

definition agg_group :: "int \<times> nat \<Rightarrow> daily list \<Rightarrow> error + weekly" where
  "agg_group k g =
     (case mean (map in_col g) of
        Inl e \<Rightarrow> Inl e
      | Inr im \<Rightarrow>
          (case mean (map out_col g) of
             Inl e \<Rightarrow> Inl e
           | Inr om \<Rightarrow>
               Inr \<lparr>Year_w = fst k, Week_Number_w = snd k, in_mean = im, out_mean = om,
                    Year_Start_w = max_flag (map Year_Start g),
                    Month_Start_w = max_flag (map Month_Start g)\<rparr>))"

fun agg_groups :: "daily list \<Rightarrow> (int \<times> nat) list \<Rightarrow> error + weekly list" where
  "agg_groups df [] = Inr []"
| "agg_groups df (k # ks) =
     (case agg_group k (get_group df k) of
        Inl e \<Rightarrow> Inl e
      | Inr w \<Rightarrow>
          (case agg_groups df ks of
             Inl e \<Rightarrow> Inl e
           | Inr ws \<Rightarrow> Inr (w # ws)))"

text \<open>\<^verbatim>\<open>df.groupby(['Year', 'Week_Number']).agg(...).reset_index()\<close>.\<close>

definition groupby_agg :: "daily list \<Rightarrow> error + weekly list" where
  "groupby_agg df = agg_groups df (group_keys df)"

section \<open>Code Block 4: scaling\<close>

text \<open>
  The result of a float division can be infinite or \<^verbatim>\<open>NaN\<close>: numpy divides by zero
  without raising.
\<close>

datatype xfloat = Finite real | PosInf | NegInf | NotANumber

text \<open>
  \<^verbatim>\<open>df['in'].max()\<close> skips missing values and is \<^verbatim>\<open>NaN\<close> when nothing is left. On a
  column with a text either the maximum or the division after it raises \<^verbatim>\<open>TypeError\<close>.
\<close>

definition col_max :: "cell list \<Rightarrow> error + real option" where
  "col_max cs =
     (if list_ex is_txt cs then Inl TypeError
      else case numbers cs of
             [] \<Rightarrow> Inr None
           | x # xs \<Rightarrow> Inr (Some (fold max xs x)))"

fun true_divide :: "real option \<Rightarrow> real option \<Rightarrow> xfloat" where
  "true_divide (Some a) (Some b) =
     (if b \<noteq> 0 then Finite (a / b)
      else if a = 0 then NotANumber
      else if 0 < a then PosInf else NegInf)"
| "true_divide a b = NotANumber"

text \<open>\<^verbatim>\<open>scaling_factor = out_max / in_max\<close>, from the daily frame \<^verbatim>\<open>df\<close>.\<close>

definition scaling_factor :: "daily list \<Rightarrow> error + xfloat" where
  "scaling_factor df =
     (case col_max (map in_col df) of
        Inl e \<Rightarrow> Inl e
      | Inr in_max \<Rightarrow>
          (case col_max (map out_col df) of
             Inl e \<Rightarrow> Inl e
           | Inr out_max \<Rightarrow> Inr (true_divide out_max in_max)))"

text \<open>
  \<^verbatim>\<open>pd.cut(x, bins=n, labels=range(1, n + 1))\<close> with an integer \<open>n\<close>: the range from the
  least to the greatest value is cut into \<open>n\<close> intervals of equal width, open on the
  left and closed on the right; the lowest edge is moved down by 0.1 percent of the range
  so that the least value falls into the first interval. When all values are equal the
  range is widened on both sides first. An empty series raises \<^verbatim>\<open>ValueError\<close>
  (``Cannot cut empty array''). The edges must differ from each other: when no value is
  present they are all \<^verbatim>\<open>NaN\<close> and pandas raises \<^verbatim>\<open>ValueError\<close> (``Bin edges must be
  unique''). In a series with a value, a missing value stays missing. (\<open>n\<close> is 48 in the
  notebook; the paths pandas takes for \<open>n\<close> below 2 are not modelled.)
\<close>

fun present :: "real option list \<Rightarrow> real list" where
  "present [] = []"
| "present (Some x # xs) = x # present xs"
| "present (None # xs) = present xs"

definition linspace :: "real \<Rightarrow> real \<Rightarrow> nat \<Rightarrow> real list" where
  "linspace start stop n = map (\<lambda>i. start + real i * ((stop - start) / real n)) [0..<Suc n]"

definition cut_bins :: "nat \<Rightarrow> real \<Rightarrow> real \<Rightarrow> real list" where
  "cut_bins n mn mx =
     (if mn = mx
      then linspace (mn - (if mn \<noteq> 0 then 0.001 * \<bar>mn\<bar> else 0.001))
                    (mx + (if mx \<noteq> 0 then 0.001 * \<bar>mx\<bar> else 0.001)) n
      else (let bins = linspace mn mx n; adj = (mx - mn) * 0.001
            in (hd bins - adj) # tl bins))"

text \<open>\<^verbatim>\<open>bins.searchsorted(x, side='left')\<close> on ascending edges: how many edges are below x.\<close>

definition searchsorted_left :: "real list \<Rightarrow> real \<Rightarrow> nat" where
  "searchsorted_left bins x = length (filter (\<lambda>b. b < x) bins)"

definition bin_label :: "real list \<Rightarrow> real option \<Rightarrow> real option" where
  "bin_label bins x =
     (case x of
        None \<Rightarrow> None
      | Some v \<Rightarrow>
          (let ids = searchsorted_left bins v
           in if ids = 0 \<or> ids = length bins then None else Some (real ids)))"

definition pd_cut :: "nat \<Rightarrow> real option list \<Rightarrow> error + real option list" where
  "pd_cut n x =
     (if x = [] then Inl CannotCutEmptyArray
      else case present x of
             [] \<Rightarrow> Inl BinEdgesNotUnique
           | y # ys \<Rightarrow>
               (let bins = cut_bins n (fold min ys y) (fold max ys y)
                in if \<not> distinct bins then Inl BinEdgesNotUnique
                   else Inr (map (bin_label bins) x)))"

fun times_factor :: "real option \<Rightarrow> xfloat \<Rightarrow> xfloat" where
  "times_factor None f = NotANumber"
| "times_factor (Some l) (Finite s) = Finite (l * s)"
| "times_factor (Some l) PosInf = (if 0 < l then PosInf else if l < 0 then NegInf else NotANumber)"
| "times_factor (Some l) NegInf = (if 0 < l then NegInf else if l < 0 then PosInf else NotANumber)"
| "times_factor (Some l) NotANumber = NotANumber"

text \<open>
  The cell as it runs: \<^verbatim>\<open>out_quant_scaled = pd.cut(weekly_df['out_mean'], bins=48,
  labels=range(1, 49)).astype(float) * scaling_factor\<close>. The two statements that would
  store \<^verbatim>\<open>in_quant\<close> and the rounded, clipped \<^verbatim>\<open>out_quant\<close> are commented out in the
  notebook, so nothing is rounded or clipped and \<^verbatim>\<open>weekly_df\<close> is left as it was.
\<close>

definition out_quant_scaled :: "daily list \<Rightarrow> weekly list \<Rightarrow> error + xfloat list" where
  "out_quant_scaled df weekly_df =
     (case scaling_factor df of
        Inl e \<Rightarrow> Inl e
      | Inr factor \<Rightarrow>
          (case pd_cut 48 (map out_mean weekly_df) of
             Inl e \<Rightarrow> Inl e
           | Inr labels \<Rightarrow> Inr (map (\<lambda>l. times_factor l factor) labels)))"


section \<open>Code Block 5: trends\<close>

text \<open>\<^verbatim>\<open>s.shift()\<close>: every value moves one row down, the first row is \<^verbatim>\<open>NaN\<close>.\<close>

definition shift :: "real option list \<Rightarrow> real option list" where
  "shift s = take (length s) (None # s)"

text \<open>A comparison with \<^verbatim>\<open>NaN\<close> is False.\<close>

fun gt :: "real option \<Rightarrow> real option \<Rightarrow> bool" where
  "gt (Some a) (Some b) = (b < a)"
| "gt a b = False"

fun lt :: "real option \<Rightarrow> real option \<Rightarrow> bool" where
  "lt (Some a) (Some b) = (a < b)"
| "lt a b = False"

text \<open>\<^verbatim>\<open>s.where(cond, other)\<close>: the value where the condition holds, \<open>other\<close> elsewhere.\<close>

definition series_where :: "real option list \<Rightarrow> bool list \<Rightarrow> real \<Rightarrow> real option list" where
  "series_where s cond other = map2 (\<lambda>v c. if c then v else Some other) s cond"

record weekly_trend = weekly +
  in_up :: "real option"
  in_down :: "real option"
  out_up :: "real option"
  out_down :: "real option"

definition trend_isolation :: "weekly list \<Rightarrow> weekly_trend list" where
  "trend_isolation weekly_df =
     (let is_in_up = map2 gt (map in_mean weekly_df) (shift (map in_mean weekly_df));
          is_in_down = map2 lt (map in_mean weekly_df) (shift (map in_mean weekly_df));
          is_out_up = map2 gt (map out_mean weekly_df) (shift (map out_mean weekly_df));
          is_out_down = map2 lt (map out_mean weekly_df) (shift (map out_mean weekly_df));
          in_up_col = series_where (map in_mean weekly_df) is_in_up 0;
          in_down_col = series_where (map in_mean weekly_df) is_in_down 0;
          out_up_col = series_where (map out_mean weekly_df) is_out_up 0;
          out_down_col = series_where (map out_mean weekly_df) is_out_down 0
      in map (\<lambda>i. \<lparr>Year_w = Year_w (weekly_df ! i),
                    Week_Number_w = Week_Number_w (weekly_df ! i),
                    in_mean = in_mean (weekly_df ! i),
                    out_mean = out_mean (weekly_df ! i),
                    Year_Start_w = Year_Start_w (weekly_df ! i),
                    Month_Start_w = Month_Start_w (weekly_df ! i),
                    in_up = in_up_col ! i, in_down = in_down_col ! i,
                    out_up = out_up_col ! i, out_down = out_down_col ! i\<rparr>)
           [0..<length weekly_df])"

section \<open>Code Block 6: final columns and the CSV file\<close>

definition to_cell :: "real option \<Rightarrow> cell" where
  "to_cell v = (case v of None \<Rightarrow> NaN | Some x \<Rightarrow> Num x)"

text \<open>\<^verbatim>\<open>weekly_df\<close> as a frame, its columns in the order the cells created them.\<close>

definition weekly_frame :: "weekly_trend list \<Rightarrow> frame" where
  "weekly_frame weekly_df =
     \<lparr>columns = [''Year'', ''Week_Number'', ''in_mean'', ''out_mean'', ''Year_Start'',
                 ''Month_Start'', ''in_up'', ''in_down'', ''out_up'', ''out_down''],
      rows = map (\<lambda>w. [Num (of_int (Year_w w)), Num (real (Week_Number_w w)),
                        to_cell (in_mean w), to_cell (out_mean w),
                        Num (of_int (Year_Start_w w)), Num (of_int (Month_Start_w w)),
                        to_cell (in_up w), to_cell (in_down w),
                        to_cell (out_up w), to_cell (out_down w)]) weekly_df\<rparr>"

text \<open>\<^verbatim>\<open>df.rename(columns={...})\<close>: a label with an entry is replaced, others stay.\<close>

definition rename :: "(string \<times> string) list \<Rightarrow> frame \<Rightarrow> frame" where
  "rename m df =
     df\<lparr>columns := map (\<lambda>c. case map_of m c of None \<Rightarrow> c | Some c' \<Rightarrow> c') (columns df)\<rparr>"

text \<open>
  \<^verbatim>\<open>df[names]\<close>: the named columns in the order of \<open>names\<close>; \<^verbatim>\<open>KeyError\<close> on a missing
  one. (The labels of \<open>df\<close> are taken distinct, as those of \<^verbatim>\<open>weekly_df\<close> are.)
\<close>

fun index_all :: "string list \<Rightarrow> string list \<Rightarrow> error + nat list" where
  "index_all [] cols = Inr []"
| "index_all (n # ns) cols =
     (case index_of n cols of
        None \<Rightarrow> Inl (KeyError n)
      | Some i \<Rightarrow>
          (case index_all ns cols of
             Inl e \<Rightarrow> Inl e
           | Inr is \<Rightarrow> Inr (i # is)))"

definition select_columns :: "string list \<Rightarrow> frame \<Rightarrow> error + frame" where
  "select_columns names df =
     (case index_all names (columns df) of
        Inl e \<Rightarrow> Inl e
      | Inr is \<Rightarrow> Inr \<lparr>columns = names, rows = map (\<lambda>r. map (\<lambda>i. r ! i) is) (rows df)\<rparr>)"

text \<open>
  The written file: its header line and its data lines, field by field. With
  \<^verbatim>\<open>index=True\<close> pandas writes the row number first, under an empty label.
\<close>

record csv_output =
  out_header :: "string list"
  out_lines :: "cell list list"

definition to_csv :: "bool \<Rightarrow> frame \<Rightarrow> csv_output" where
  "to_csv index df =
     (if index
      then \<lparr>out_header = [] # columns df,
            out_lines = map (\<lambda>i. Num (real i) # rows df ! i) [0..<length (rows df)]\<rparr>
      else \<lparr>out_header = columns df, out_lines = rows df\<rparr>)"

definition columns_to_keep :: "string list" where
  "columns_to_keep =
     [''in'', ''out'', ''Month_Start'', ''Year_Start'', ''in_up'', ''in_down'', ''out_up'', ''out_down'']"

definition finalize_and_write :: "frame \<Rightarrow> error + csv_output" where
  "finalize_and_write weekly_df =
     (let final_df = rename [(''in_mean'', ''in''), (''out_mean'', ''out'')] weekly_df
      in case select_columns columns_to_keep final_df of
           Inl e \<Rightarrow> Inl e
         | Inr final_df' \<Rightarrow> Inr (to_csv False final_df'))"

text \<open>
  The notebook from the first cell to the last. The scaling cell stores nothing, but an
  exception in it stops the run before the file is written.
\<close>

definition notebook :: "(cell \<Rightarrow> error + date option) \<Rightarrow> csv_file list \<Rightarrow> error + csv_output" where
  "notebook to_datetime files =
     (case load_and_clean files of
        Inl e \<Rightarrow> Inl e
      | Inr df0 \<Rightarrow>
          (case derive_time_features to_datetime df0 of
             Inl e \<Rightarrow> Inl e
           | Inr df \<Rightarrow>
               (case groupby_agg df of
                  Inl e \<Rightarrow> Inl e
                | Inr weekly_df \<Rightarrow>
                    (case out_quant_scaled df weekly_df of
                       Inl e \<Rightarrow> Inl e
                     | Inr q \<Rightarrow> finalize_and_write (weekly_frame (trend_isolation weekly_df))))))"

section \<open>Example inputs\<close>

text \<open>Two exports with the same header and two data rows each.\<close>

definition file_a :: csv_file where
  "file_a = \<lparr>header_line = [''Time'', ''Traffic In'', ''Traffic Out''],
              data_lines = [[Txt ''2024-01-01'', Num 10, Num 20],
                            [Txt ''2024-01-02'', Num 11, Num 21]]\<rparr>"

definition file_b :: csv_file where
  "file_b = \<lparr>header_line = [''Time'', ''Traffic In'', ''Traffic Out''],
              data_lines = [[Txt ''2024-01-03'', Num 12, Num 22],
                            [Txt ''2024-01-04'', Num 13, Num 23]]\<rparr>"

definition combined_ab :: frame where
  "combined_ab = \<lparr>columns = [''Time'', ''in'', ''out''],
                   rows = [[Txt ''2024-01-01'', Num 10, Num 20],
                           [Txt ''2024-01-02'', Num 11, Num 21],
                           [Txt ''2024-01-04'', Num 13, Num 23]]\<rparr>"

text \<open>Two exports with rows whose third value is 0 and rows whose third value is 0.0001.\<close>

definition file_c :: csv_file where
  "file_c = \<lparr>header_line = [''Time'', ''Traffic In'', ''Traffic Out''],
              data_lines = [[Txt ''2024-01-01'', Num 5, Num 0],
                            [Txt ''2024-01-02'', Num 6, Num 0.0001]]\<rparr>"

definition file_d :: csv_file where
  "file_d = \<lparr>header_line = [''Time'', ''Traffic In'', ''Traffic Out''],
              data_lines = [[Txt ''2024-01-03'', Num 7, Num 0.0001],
                            [Txt ''2024-01-04'', Num 8, Num 0]]\<rparr>"

text \<open>A parser that knows two dates, and the daily table of these two days.\<close>

definition example_to_datetime :: "cell \<Rightarrow> error + date option" where
  "example_to_datetime c =
     (if c = Txt ''2024-01-01'' then Inr (Some \<lparr>year = 2024, month = 1, day = 1\<rparr>)
      else if c = Txt ''2024-01-02'' then Inr (Some \<lparr>year = 2024, month = 1, day = 2\<rparr>)
      else if c = NaN then Inr None
      else Inl DateParseError)"

definition jan_frame :: frame where
  "jan_frame = \<lparr>columns = [''Time'', ''in'', ''out''],
                 rows = [[Txt ''2024-01-01'', Num 10, Num 20],
                         [Txt ''2024-01-02'', Num 11, Num 21]]\<rparr>"

definition jan_days :: "daily list" where
  "jan_days = [time_features (Some \<lparr>year = 2024, month = 1, day = 1\<rparr>) (Num 10) (Num 20),
               time_features (Some \<lparr>year = 2024, month = 1, day = 2\<rparr>) (Num 11) (Num 21)]"

text \<open>
  Four days in two weeks: 29 January, 31 January and 1 February 2024 are in ISO week 5,
  5 February 2024 is in week 6.
\<close>

definition example_days :: "daily list" where
  "example_days =
     [time_features (Some \<lparr>year = 2024, month = 1, day = 29\<rparr>) (Num 10) (Num 1),
      time_features (Some \<lparr>year = 2024, month = 1, day = 31\<rparr>) (Num 20) (Num 2),
      time_features (Some \<lparr>year = 2024, month = 2, day = 1\<rparr>) (Num 30) (Num 3),
      time_features (Some \<lparr>year = 2024, month = 2, day = 5\<rparr>) (Num 40) (Num 4)]"

definition example_weeks :: "weekly list" where
  "example_weeks =
     [\<lparr>Year_w = 2024, Week_Number_w = 5, in_mean = Some 20, out_mean = Some 2,
       Year_Start_w = 0, Month_Start_w = 256\<rparr>,
      \<lparr>Year_w = 2024, Week_Number_w = 6, in_mean = Some 40, out_mean = Some 4,
       Year_Start_w = 0, Month_Start_w = 0\<rparr>]"

text \<open>A daily table whose greatest values are 100 (in) and 1000 (out).\<close>

definition maxima_days :: "daily list" where
  "maxima_days = [time_features None (Num 100) (Num 3), time_features None (Num 50) (Num 1000)]"



text \<open>Three weeks whose \<^verbatim>\<open>out_mean\<close> is 5, 5, 3 and whose \<^verbatim>\<open>in_mean\<close> is 1, 4, 2.\<close>

definition trend_weeks :: "weekly list" where
  "trend_weeks =
     [\<lparr>Year_w = 2024, Week_Number_w = 1, in_mean = Some 1, out_mean = Some 5,
       Year_Start_w = 256, Month_Start_w = 256\<rparr>,
      \<lparr>Year_w = 2024, Week_Number_w = 2, in_mean = Some 4, out_mean = Some 5,
       Year_Start_w = 0, Month_Start_w = 0\<rparr>,
      \<lparr>Year_w = 2024, Week_Number_w = 3, in_mean = Some 2, out_mean = Some 3,
       Year_Start_w = 0, Month_Start_w = 0\<rparr>]"

section \<open>Loading and cleaning: properties\<close>

lemmas load_defs =
  load_and_clean_def read_csv_def table_width_def data_rows_def pad_def clean_file_def iloc_from_def drop_zero_third_def
  third_nonzero_def pd_concat_def union_columns_def reindex_row_def sort_values_def
  sort_rows_def set_columns_def

lemma length_insort_row: "length (insort_row i r qs) = Suc (length qs)"
  by (induction qs) auto

lemma set_insort_row: "set (insort_row i r qs) = insert r (set qs)"
  by (induction qs) auto

lemma length_sort_rows: "length (sort_rows i rs) = length rs"
  by (induction rs) (auto simp: sort_rows_def length_insort_row)

lemma set_sort_rows: "set (sort_rows i rs) = set rs"
  by (induction rs) (auto simp: sort_rows_def set_insort_row)

lemma sort_values_rows:
  "sort_values by df = Inr df' \<Longrightarrow>
     length (rows df') = length (rows df) \<and> set (rows df') = set (rows df)
     \<and> columns df' = columns df"
  by (auto simp: sort_values_def length_sort_rows set_sort_rows split: option.splits if_splits)

lemma set_columns_rows:
  "set_columns names df = Inr df' \<Longrightarrow>
     rows df' = rows df \<and> columns df' = names \<and> length (columns df) = length names"
  by (auto simp: set_columns_def split: if_splits)

lemma pd_concat_rows:
  "pd_concat dfs = Inr df \<Longrightarrow> length (rows df) = sum_list (map (\<lambda>d. length (rows d)) dfs)"
  by (auto simp: pd_concat_def length_concat comp_def split: if_splits)

lemma load_and_clean_frames:
  assumes "load_and_clean files = Inr df"
  shows "\<exists>dfs df1 df2. ingest False [] files = Inr dfs \<and> pd_concat dfs = Inr df1
           \<and> sort_values ''Time'' df1 = Inr df2
           \<and> set_columns [''Time'', ''in'', ''out''] df2 = Inr df"
  using assms by (auto simp: load_and_clean_def split: sum.splits)

lemma load_and_clean_columns:
  "load_and_clean files = Inr df \<Longrightarrow> columns df = [''Time'', ''in'', ''out'']"
  by (auto simp: load_and_clean_def set_columns_def split: sum.splits if_splits)

lemma read_csv_ok:
  "read_csv f = Inr d \<Longrightarrow> columns d = header_line f \<and> rows d = data_rows f"
  by (auto simp: read_csv_def split: if_splits)

lemma length_data_rows: "length (data_rows f) = length (data_lines f)"
  by (simp add: data_rows_def)

text \<open>The rows of the combined table of two files: those each file keeps after its cleaning.\<close>

lemma load_two_files_rows:
  assumes ok: "load_and_clean [f1, f2] = Inr df"
  shows "length (rows df) =
           length (rows (clean_file False \<lparr>columns = header_line f1, rows = data_rows f1\<rparr>))
         + length (rows (clean_file True \<lparr>columns = header_line f2, rows = data_rows f2\<rparr>))"
proof -
  from load_and_clean_frames [OF ok] obtain dfs df1 df2 where
    i: "ingest False [] [f1, f2] = Inr dfs" and c: "pd_concat dfs = Inr df1"
    and s: "sort_values ''Time'' df1 = Inr df2"
    and r: "set_columns [''Time'', ''in'', ''out''] df2 = Inr df"
    by blast
  from i obtain d1 d2 where d1: "read_csv f1 = Inr d1" and d2: "read_csv f2 = Inr d2"
    and dfs: "dfs = [clean_file False d1, clean_file True d2]"
    by (auto split: sum.splits)
  have e1: "d1 = \<lparr>columns = header_line f1, rows = data_rows f1\<rparr>"
    using read_csv_ok [OF d1] by simp
  have e2: "d2 = \<lparr>columns = header_line f2, rows = data_rows f2\<rparr>"
    using read_csv_ok [OF d2] by simp
  have "length (rows df) = length (rows df1)"
    using sort_values_rows [OF s] set_columns_rows [OF r] by simp
  also have "\<dots> = length (rows (clean_file False d1)) + length (rows (clean_file True d2))"
    using pd_concat_rows [OF c] dfs by simp
  finally show ?thesis using e1 e2 by simp
qed

lemma load_file_a_file_b: "load_and_clean [file_a, file_b] = Inr combined_ab"
  by (simp add: load_defs file_a_def file_b_def combined_ab_def)

text \<open>
  C1. The claim: two files with the same header and N and M data rows give N + M rows.
  The code: \<^verbatim>\<open>read_csv\<close> has already taken the header of every file, so \<^verbatim>\<open>iloc[1:]\<close>
  removes the first data row of the second file. With the same header of more than two
  columns and no row whose third value (as \<^verbatim>\<open>read_csv\<close> gives it) is 0, the combined
  table has N + (M - 1) rows.
\<close>

theorem header_skip_loses_a_row:
  assumes ok: "load_and_clean [f1, f2] = Inr df"
    and h: "header_line f2 = header_line f1" "2 < length (header_line f1)"
    and nz: "\<forall>r\<in>set (data_rows f1 @ data_rows f2). third_nonzero r"
  shows "length (rows df) = length (data_lines f1) + (length (data_lines f2) - 1)"
proof -
  have f1: "filter third_nonzero (data_rows f1) = data_rows f1"
    using nz by (auto simp: filter_id_conv)
  have f2: "filter third_nonzero (drop 1 (data_rows f2)) = drop 1 (data_rows f2)"
    using nz by (auto simp: filter_id_conv dest!: in_set_dropD)
  show ?thesis
    using load_two_files_rows [OF ok] h f1 f2
    by (simp add: clean_file_def iloc_from_def drop_zero_third_def length_data_rows)
qed

theorem header_skip_loses_a_row_witness:
  "load_and_clean [file_a, file_b] = Inr combined_ab
   \<and> length (data_lines file_a) = 2 \<and> length (data_lines file_b) = 2
   \<and> length (rows combined_ab) = 3
   \<and> [Txt ''2024-01-03'', Num 12, Num 22] \<in> set (data_lines file_b)
   \<and> [Txt ''2024-01-03'', Num 12, Num 22] \<notin> set (rows combined_ab)"
proof -
  have h: "header_line file_b = header_line file_a" "2 < length (header_line file_a)"
    by (simp_all add: file_a_def file_b_def)
  have nz: "\<forall>r\<in>set (data_rows file_a @ data_rows file_b). third_nonzero r"
    by (simp add: file_a_def file_b_def third_nonzero_def data_rows_def table_width_def pad_def)
  from header_skip_loses_a_row [OF load_file_a_file_b h nz]
  have "length (rows combined_ab) = 3" by (simp add: file_a_def file_b_def)
  then show ?thesis
    using load_file_a_file_b by (simp add: file_a_def file_b_def combined_ab_def)
qed

text \<open>
  C2. The claim: with no input file the ingestion returns an empty table and raises
  nothing. The code: \<^verbatim>\<open>df_list\<close> stays empty and \<^verbatim>\<open>pd.concat\<close> raises, so the cell
  and with it the run stop with an error.
\<close>

theorem no_files_raises:
  "load_and_clean [] = Inl NoObjectsToConcatenate
   \<and> notebook to_datetime [] = Inl NoObjectsToConcatenate"
  by (simp add: notebook_def load_and_clean_def pd_concat_def)

text \<open>The result for no file is an error, not a table.\<close>

theorem no_files_counterexample: "isl (load_and_clean [])"
  by (simp add: load_and_clean_def pd_concat_def)

text \<open>
  C7. The claim: in a file with more than two columns a row is in the combined table
  exactly when its third value is not 0. The code: the filter does drop the rows with
  0 and keeps the others, but the first data row of the second file is gone before the
  filter runs. Here the row of 3 January has the third value 0.0001 and is absent.
\<close>

theorem zero_filter_after_header_skip:
  "load_and_clean [file_c, file_d]
     = Inr \<lparr>columns = [''Time'', ''in'', ''out''],
            rows = [[Txt ''2024-01-02'', Num 6, Num 0.0001]]\<rparr>"
  by (simp add: load_defs file_c_def file_d_def)

lemma ingest_acc:
  "ingest flag acc files = Inr dfs \<Longrightarrow> \<exists>new. dfs = acc @ new \<and> length new = length files"
proof (induction files arbitrary: flag acc)
  case Nil
  then show ?case by simp
next
  case (Cons f fs)
  then obtain d where d: "read_csv f = Inr d"
    and rest: "ingest True (acc @ [clean_file flag d]) fs = Inr dfs"
    by (auto split: sum.splits)
  from Cons.IH [OF rest] obtain new where
    "dfs = (acc @ [clean_file flag d]) @ new" "length new = length fs"
    by blast
  then show ?case by (intro exI [of _ "clean_file flag d # new"]) simp
qed

lemma length_pad: "length r \<le> n \<Longrightarrow> length (pad n r) = n"
  by (simp add: pad_def)

lemma header_le_table_width: "length (header_line f) \<le> table_width f"
  by (simp add: table_width_def split: list.splits)

lemma read_csv_lengths:
  assumes "read_csv f = Inr d"
  shows "\<forall>r\<in>set (rows d). length r = length (header_line f)"
proof -
  have "\<forall>r\<in>set (data_lines f). length r \<le> table_width f"
    using assms by (auto simp: read_csv_def list_ex_iff not_less split: if_splits)
  then have "\<forall>r\<in>set (data_rows f). length r = length (header_line f)"
    using header_le_table_width [of f] by (auto simp: data_rows_def length_pad)
  then show ?thesis using read_csv_ok [OF assms] by simp
qed

lemma clean_file_rows:
  "columns (clean_file flag d) = columns d"
  "rows (clean_file flag d)
     = (if 2 < length (columns d)
        then filter third_nonzero (drop (if flag then 1 else 0) (rows d))
        else drop (if flag then 1 else 0) (rows d))"
  by (simp_all add: clean_file_def iloc_from_def drop_zero_third_def)

lemma clean_file_clean:
  assumes "read_csv f = Inr d" "2 < length (header_line f)"
  shows "clean_frame (header_line f) (clean_file flag d)"
proof -
  have c: "columns d = header_line f" using read_csv_ok [OF assms(1)] by simp
  have "set (drop (if flag then 1 else 0) (rows d)) \<subseteq> set (rows d)"
    by (rule set_drop_subset)
  then have "\<forall>r\<in>set (drop (if flag then 1 else 0) (rows d)). length r = length (header_line f)"
    using read_csv_lengths [OF assms(1)] by blast
  then show ?thesis
    using assms(2) unfolding clean_frame_def clean_file_rows c
    by (simp add: list_all_iff)
qed

lemma ingest_clean:
  assumes "ingest flag acc files = Inr dfs" "\<forall>f\<in>set files. header_line f = h" "2 < length h"
    and "\<forall>d\<in>set acc. clean_frame h d"
  shows "\<forall>d\<in>set dfs. clean_frame h d"
  using assms
proof (induction files arbitrary: flag acc)
  case Nil
  then show ?case by simp
next
  case (Cons f fs)
  from Cons.prems(1) obtain d where d: "read_csv f = Inr d"
    and rest: "ingest True (acc @ [clean_file flag d]) fs = Inr dfs"
    by (auto split: sum.splits)
  have "clean_frame h (clean_file flag d)"
    using clean_file_clean [OF d] Cons.prems(2,3) by simp
  then have "\<forall>d\<in>set (acc @ [clean_file flag d]). clean_frame h d"
    using Cons.prems(4) by simp
  from Cons.IH [OF rest _ Cons.prems(3) this] Cons.prems(2) show ?case by simp
qed

lemma ingest_member:
  assumes "ingest flag acc (pre @ f # post) = Inr dfs"
  shows "\<exists>d. read_csv f = Inr d \<and> clean_file (flag \<or> pre \<noteq> []) d \<in> set dfs"
  using assms
proof (induction pre arbitrary: flag acc)
  case Nil
  then obtain d where d: "read_csv f = Inr d"
    and rest: "ingest True (acc @ [clean_file flag d]) post = Inr dfs"
    by (auto split: sum.splits)
  from ingest_acc [OF rest] have "clean_file flag d \<in> set dfs" by auto
  then show ?case using d by auto
next
  case (Cons g pre)
  then obtain d where "ingest True (acc @ [clean_file flag d]) (pre @ f # post) = Inr dfs"
    by (auto split: sum.splits)
  from Cons.IH [OF this] show ?case by simp
qed

lemma index_of_nth: "distinct h \<Longrightarrow> i < length h \<Longrightarrow> index_of (h ! i) h = Some i"
proof (induction h arbitrary: i)
  case Nil
  then show ?case by simp
next
  case (Cons x xs)
  then show ?case by (cases i) auto
qed

lemma reindex_row_same:
  assumes "distinct h" "columns d = h" "length r = length h"
  shows "reindex_row h d r = r"
  using assms by (intro nth_equalityI) (simp_all add: reindex_row_def index_of_nth)

lemma union_columns_same:
  assumes "distinct h" "dfs \<noteq> []" "\<forall>d\<in>set dfs. columns d = h"
  shows "union_columns dfs = h"
proof -
  obtain d ds where e: "dfs = d # ds" using assms(2) by (cases dfs) auto
  define ys where "ys = concat (map columns ds)"
  have s: "set (rev ys) \<subseteq> set (rev h)" using assms(3) e by (auto simp: ys_def)
  have c: "concat (map columns dfs) = h @ ys" using assms(3) e by (simp add: ys_def)
  have "remdups (rev ys @ rev h) = remdups (rev h)"
    by (rule remdups_append [OF s])
  also have "\<dots> = rev h" using assms(1) by simp
  finally show ?thesis by (simp add: union_columns_def c)
qed

lemma pd_concat_same:
  assumes "pd_concat dfs = Inr df" "distinct h" "\<forall>d\<in>set dfs. clean_frame h d"
  shows "columns df = h \<and> rows df = concat (map rows dfs)"
proof -
  have ne: "dfs \<noteq> []" using assms(1) by (auto simp: pd_concat_def split: if_splits)
  have u: "union_columns dfs = h"
    using union_columns_same [OF assms(2) ne] assms(3) by (simp add: clean_frame_def)
  have df: "df = \<lparr>columns = h,
                  rows = concat (map (\<lambda>d. map (reindex_row h d) (rows d)) dfs)\<rparr>"
    using assms(1) ne u by (simp add: pd_concat_def)
  have "map (reindex_row h d) (rows d) = rows d" if "d \<in> set dfs" for d
    using that assms(2,3)
    by (intro map_idI reindex_row_same) (auto simp: clean_frame_def list_all_iff)
  then have "map (\<lambda>d. map (reindex_row h d) (rows d)) dfs = map rows dfs"
    by (intro map_cong) simp_all
  then show ?thesis unfolding df by (simp only: frame.simps)
qed

lemma load_and_clean_same_header:
  assumes "load_and_clean files = Inr df" "\<forall>f\<in>set files. header_line f = h"
    and "distinct h" "2 < length h"
  shows "\<exists>dfs. ingest False [] files = Inr dfs \<and> (\<forall>d\<in>set dfs. clean_frame h d)
           \<and> set (rows df) = set (concat (map rows dfs))"
proof -
  from load_and_clean_frames [OF assms(1)] obtain dfs df1 df2 where
    i: "ingest False [] files = Inr dfs" and c: "pd_concat dfs = Inr df1"
    and s: "sort_values ''Time'' df1 = Inr df2"
    and r: "set_columns [''Time'', ''in'', ''out''] df2 = Inr df"
    by blast
  have cl: "\<forall>d\<in>set dfs. clean_frame h d"
    by (rule ingest_clean [OF i assms(2,4)]) simp
  have "set (rows df) = set (rows df1)"
    using sort_values_rows [OF s] set_columns_rows [OF r] by simp
  then show ?thesis using i cl pd_concat_same [OF c assms(3) cl] by auto
qed

text \<open>
  The filter itself, on files that share a header of more than two distinct labels: no
  row of the combined table has 0 as third value, and a row with another third value is
  in the table, unless it is the first data row of a file after the first.
\<close>

lemma zero_rows_absent:
  assumes "load_and_clean files = Inr df" "\<forall>f\<in>set files. header_line f = h"
    and "distinct h" "2 < length h"
  shows "\<forall>r\<in>set (rows df). r ! 2 \<noteq> Num 0"
proof -
  from load_and_clean_same_header [OF assms] obtain dfs where
    cl: "\<forall>d\<in>set dfs. clean_frame h d" and s: "set (rows df) = set (concat (map rows dfs))"
    by blast
  show ?thesis unfolding s using cl by (auto simp: clean_frame_def list_all_iff third_nonzero_def)
qed

lemma nonzero_rows_present:
  assumes "load_and_clean (pre @ f # post) = Inr df"
    and "\<forall>g\<in>set (pre @ f # post). header_line g = h"
    and "distinct h" "2 < length h"
    and "r \<in> set (drop (if pre = [] then 0 else 1) (data_rows f))"
    and "r ! 2 \<noteq> Num 0"
  shows "r \<in> set (rows df)"
proof -
  from load_and_clean_same_header [OF assms(1-4)] obtain dfs where
    i: "ingest False [] (pre @ f # post) = Inr dfs"
    and s: "set (rows df) = set (concat (map rows dfs))"
    by blast
  from ingest_member [OF i] obtain d where d: "read_csv f = Inr d"
    and m: "clean_file (pre \<noteq> []) d \<in> set dfs"
    by auto
  have hf: "header_line f = h" using assms(2) by simp
  have "r \<in> set (drop (if pre = [] then 0 else 1) (rows d))"
    using read_csv_ok [OF d] assms(5) by simp
  then have "r \<in> set (rows (clean_file (pre \<noteq> []) d))"
    using read_csv_ok [OF d] assms(4,6) hf
    by (auto simp: clean_file_def iloc_from_def drop_zero_third_def third_nonzero_def)
  then show ?thesis unfolding s using m by auto
qed

section \<open>Time features: properties\<close>

lemmas calendar_defs =
  day_name_def dayofweek_def ordinal_def days_before_year_def days_before_month_def
  days_in_month_def is_leap_def is_month_start_def is_year_start_def isocalendar_week_def
  isoweek1monday_def

lemma dayofweek_less: "dayofweek d < 7"
  by (simp add: dayofweek_def nat_less_iff)

lemma day_name_Monday: "day_name d = ''Monday'' \<longleftrightarrow> dayofweek d = 0"
proof -
  consider "dayofweek d = 0" | "dayofweek d = 1" | "dayofweek d = 2" | "dayofweek d = 3"
    | "dayofweek d = 4" | "dayofweek d = 5" | "dayofweek d = 6"
    using dayofweek_less [of d] by linarith
  then show ?thesis by cases (simp_all add: day_name_def)
qed

lemma time_features_flags:
  "Week_Start (time_features t i out)
     = (case t of None \<Rightarrow> 0 | Some d \<Rightarrow> if dayofweek d = 0 then 256 else 0)"
  "Month_Start (time_features t i out)
     = (case t of None \<Rightarrow> 0 | Some d \<Rightarrow> if day d = 1 then 256 else 0)"
  "Year_Start (time_features t i out)
     = (case t of None \<Rightarrow> 0 | Some d \<Rightarrow> if month d = 1 \<and> day d = 1 then 256 else 0)"
  "Time (time_features t i out) = t"
  by (cases t; simp add: time_features_def day_name_Monday is_month_start_def is_year_start_def)+

lemma derive_rows_nth:
  "derive_rows to_datetime rs = Inr df \<Longrightarrow>
     length df = length rs
   \<and> (\<forall>i<length rs. \<exists>t. to_datetime (rs ! i ! 0) = Inr t
          \<and> df ! i = time_features t (rs ! i ! 1) (rs ! i ! 2))"
proof (induction rs arbitrary: df)
  case Nil
  then show ?case by simp
next
  case (Cons r rs)
  then obtain t ds where t: "to_datetime (r ! 0) = Inr t"
    and r: "derive_rows to_datetime rs = Inr ds"
    and e: "df = time_features t (r ! 1) (r ! 2) # ds"
    by (auto split: sum.splits)
  from Cons.IH [OF r] show ?case using t e by (auto simp: nth_Cons split: nat.splits)
qed

lemma derive_rows_returns:
  "\<forall>r\<in>set rs. \<exists>t. to_datetime (r ! 0) = Inr t \<Longrightarrow> \<exists>df. derive_rows to_datetime rs = Inr df"
  by (induction rs) auto

lemma derive_time_features_returns:
  assumes "columns df0 = [''Time'', ''in'', ''out'']"
    and "\<forall>r\<in>set (rows df0). \<exists>t. to_datetime (r ! 0) = Inr t"
  shows "\<exists>df. derive_time_features to_datetime df0 = Inr df"
  using derive_rows_returns [OF assms(2)] assms(1) by (simp add: derive_time_features_def)

lemma derive_jan_frame: "derive_time_features example_to_datetime jan_frame = Inr jan_days"
  by (simp add: derive_time_features_def jan_frame_def jan_days_def example_to_datetime_def)

text \<open>
  C8. Row by row of the enriched daily table: \<^verbatim>\<open>Week_Start\<close> is 256 when the parsed
  date is a Monday (day of week 0), \<^verbatim>\<open>Month_Start\<close> is 256 on day 1 of a month,
  \<^verbatim>\<open>Year_Start\<close> is 256 on day 1 of month 1; each is 0 otherwise.
\<close>

theorem time_feature_flags:
  assumes "derive_time_features to_datetime df0 = Inr df" and "i < length df"
  shows "length df = length (rows df0)
       \<and> to_datetime (rows df0 ! i ! 0) = Inr (Time (df ! i))
       \<and> Week_Start (df ! i)
           = (case Time (df ! i) of None \<Rightarrow> 0 | Some d \<Rightarrow> if dayofweek d = 0 then 256 else 0)
       \<and> Month_Start (df ! i)
           = (case Time (df ! i) of None \<Rightarrow> 0 | Some d \<Rightarrow> if day d = 1 then 256 else 0)
       \<and> Year_Start (df ! i)
           = (case Time (df ! i) of None \<Rightarrow> 0
              | Some d \<Rightarrow> if month d = 1 \<and> day d = 1 then 256 else 0)"
proof -
  from assms(1) have d: "derive_rows to_datetime (rows df0) = Inr df"
    by (simp add: derive_time_features_def split: if_splits)
  note n = derive_rows_nth [OF d]
  then obtain t where t: "to_datetime (rows df0 ! i ! 0) = Inr t"
    and e: "df ! i = time_features t (rows df0 ! i ! 1) (rows df0 ! i ! 2)"
    using assms(2) by force
  show ?thesis using n t unfolding e time_features_flags by simp
qed

text \<open>1 January 2024 is a Monday and starts a month and a year; 2 January 2024 does neither.\<close>

theorem time_feature_flags_witness:
  "derive_time_features example_to_datetime jan_frame = Inr jan_days
   \<and> Time (jan_days ! 0) = Some \<lparr>year = 2024, month = 1, day = 1\<rparr>
   \<and> Week_Start (jan_days ! 0) = 256 \<and> Month_Start (jan_days ! 0) = 256
   \<and> Year_Start (jan_days ! 0) = 256
   \<and> Time (jan_days ! 1) = Some \<lparr>year = 2024, month = 1, day = 2\<rparr>
   \<and> Week_Start (jan_days ! 1) = 0 \<and> Month_Start (jan_days ! 1) = 0
   \<and> Year_Start (jan_days ! 1) = 0"
proof -
  have l: "0 < length jan_days" "1 < length jan_days" by (simp_all add: jan_days_def)
  have t: "Time (jan_days ! 0) = Some \<lparr>year = 2024, month = 1, day = 1\<rparr>"
    "Time (jan_days ! 1) = Some \<lparr>year = 2024, month = 1, day = 2\<rparr>"
    by (simp_all add: jan_days_def time_features_def)
  have w: "dayofweek \<lparr>year = 2024, month = 1, day = 1\<rparr> = 0"
    "dayofweek \<lparr>year = 2024, month = 1, day = 2\<rparr> = 1"
    by (simp_all add: calendar_defs)
  note f0 = time_feature_flags [OF derive_jan_frame l(1), unfolded t option.case w]
  note f1 = time_feature_flags [OF derive_jan_frame l(2), unfolded t option.case w]
  show ?thesis using f0 f1 derive_jan_frame unfolding t by simp
qed

section \<open>Weekly aggregation: properties\<close>

lemma set_present_keys: "set (present_keys df) = {k. \<exists>d\<in>set df. group_key d = Some k}"
  by (induction df) (auto split: option.splits)

lemma set_insort_keys: "set (insort_keys k qs) = insert k (set qs)"
  by (induction qs) auto

lemma distinct_insort_keys: "distinct (insort_keys k qs) = (k \<notin> set qs \<and> distinct qs)"
  by (induction qs) (auto simp: set_insort_keys)

lemma key_le_total: "key_le a b \<or> key_le b a"
  by (auto simp: key_le_def)

lemma key_le_trans: "key_le a b \<Longrightarrow> key_le b c \<Longrightarrow> key_le a c"
  by (auto simp: key_le_def)

lemma sorted_insort_keys: "sorted_wrt key_le qs \<Longrightarrow> sorted_wrt key_le (insort_keys k qs)"
proof (induction qs)
  case Nil
  then show ?case by simp
next
  case (Cons q qs)
  show ?case
  proof (cases "key_le k q")
    case True
    then show ?thesis using Cons.prems by (auto intro: key_le_trans)
  next
    case False
    then have "key_le q k" using key_le_total by blast
    then show ?thesis using False Cons by (auto simp: set_insort_keys)
  qed
qed

lemma set_sort_keys: "set (sort_keys ks) = set ks"
  by (induction ks) (auto simp: sort_keys_def set_insort_keys)

lemma distinct_sort_keys: "distinct (sort_keys ks) = distinct ks"
  using set_sort_keys by (induction ks) (auto simp: sort_keys_def distinct_insort_keys)

lemma sorted_sort_keys: "sorted_wrt key_le (sort_keys ks)"
  by (induction ks) (auto simp: sort_keys_def sorted_insort_keys)

lemma set_group_keys: "set (group_keys df) = {k. \<exists>d\<in>set df. group_key d = Some k}"
  by (simp add: group_keys_def set_sort_keys set_present_keys)

lemma distinct_group_keys: "distinct (group_keys df)"
  by (simp add: group_keys_def distinct_sort_keys)

lemma strict_group_keys:
  "sorted_wrt (\<lambda>a b. fst a < fst b \<or> (fst a = fst b \<and> snd a < snd b)) (group_keys df)"
proof -
  have s: "sorted_wrt key_le (group_keys df)"
    by (simp add: group_keys_def sorted_sort_keys)
  have "sorted_wrt (\<lambda>a b. key_le a b \<and> a \<noteq> b) (group_keys df)"
    using s distinct_group_keys [of df]
    by (simp add: sorted_wrt_iff_nth_less distinct_conv_nth) 
  then show ?thesis
    by (rule sorted_wrt_mono_rel [rotated]) (auto simp: key_le_def prod_eq_iff)
qed

lemma agg_groups_nth:
  "agg_groups df ks = Inr ws \<Longrightarrow>
     length ws = length ks \<and> (\<forall>i<length ks. agg_group (ks ! i) (get_group df (ks ! i)) = Inr (ws ! i))"
proof (induction ks arbitrary: ws)
  case Nil
  then show ?case by simp
next
  case (Cons k ks)
  then obtain w ws' where w: "agg_group k (get_group df k) = Inr w"
    and r: "agg_groups df ks = Inr ws'" and e: "ws = w # ws'"
    by (auto split: sum.splits)
  from Cons.IH [OF r] show ?case
    using w e by (auto simp: nth_Cons split: nat.splits)
qed

lemma agg_group_fields:
  assumes "agg_group k g = Inr w"
  shows "Year_w w = fst k" "Week_Number_w w = snd k"
    "mean (map in_col g) = Inr (in_mean w)" "mean (map out_col g) = Inr (out_mean w)"
    "Year_Start_w w = max_flag (map Year_Start g)" "Month_Start_w w = max_flag (map Month_Start g)"
  using assms by (auto simp: agg_group_def split: sum.splits)

lemma mean_value:
  "mean cs = Inr m \<Longrightarrow>
     m = (if numbers cs = [] then None else Some (sum_list (numbers cs) / real (length (numbers cs))))"
  by (auto simp: mean_def split: if_splits)

lemma max_flag_Max: "xs \<noteq> [] \<Longrightarrow> max_flag xs = Max (set xs)"
  by (induction xs rule: max_flag.induct) simp_all

lemma Max_flag_256:
  assumes "xs \<noteq> []" "\<forall>x\<in>set xs. x = 0 \<or> x = (256::int)"
  shows "Max (set xs) = (if 256 \<in> set xs then 256 else 0)"
proof (cases "256 \<in> set xs")
  case True
  have "Max (set xs) = 256"
    by (rule Max_eqI) (use assms True in auto)
  then show ?thesis using True by simp
next
  case False
  then have "set xs = {0}" using assms by (cases xs) auto
  then show ?thesis using False by simp
qed


lemma group_key_Some: "group_key d = Some k \<longleftrightarrow> Year d = Some (fst k) \<and> Week_Number d = Some (snd k)"
  by (cases k) (auto simp: group_key_def split: option.splits)

lemma get_group_filter:
  "get_group df k = filter (\<lambda>d. Year d = Some (fst k) \<and> Week_Number d = Some (snd k)) df"
  by (simp add: get_group_def group_key_Some)

lemma get_group_nonempty: "k \<in> set (group_keys df) \<Longrightarrow> get_group df k \<noteq> []"
  by (auto simp: set_group_keys get_group_def filter_empty_conv)

lemma groupby_agg_keys:
  assumes "groupby_agg df = Inr weekly_df"
  shows "map (\<lambda>w. (Year_w w, Week_Number_w w)) weekly_df = group_keys df"
proof (rule nth_equalityI)
  note n = agg_groups_nth [OF assms [unfolded groupby_agg_def]]
  show "length (map (\<lambda>w. (Year_w w, Week_Number_w w)) weekly_df) = length (group_keys df)"
    using n by simp
  fix i assume "i < length (map (\<lambda>w. (Year_w w, Week_Number_w w)) weekly_df)"
  then have i: "i < length (group_keys df)" using n by simp
  then have "agg_group (group_keys df ! i) (get_group df (group_keys df ! i)) = Inr (weekly_df ! i)"
    using n by blast
  from agg_group_fields(1,2) [OF this] show
    "map (\<lambda>w. (Year_w w, Week_Number_w w)) weekly_df ! i = group_keys df ! i"
    using i n by simp
qed

lemma groupby_agg_row:
  assumes "groupby_agg df = Inr weekly_df" "w \<in> set weekly_df"
  shows "(Year_w w, Week_Number_w w) \<in> set (group_keys df)
       \<and> agg_group (Year_w w, Week_Number_w w) (get_group df (Year_w w, Week_Number_w w)) = Inr w"
proof -
  note n = agg_groups_nth [OF assms(1) [unfolded groupby_agg_def]]
  from assms(2) obtain i where i: "i < length weekly_df" and w: "w = weekly_df ! i"
    by (auto simp: in_set_conv_nth)
  then have a: "agg_group (group_keys df ! i) (get_group df (group_keys df ! i)) = Inr w"
    using n by simp
  have k: "group_keys df ! i = (Year_w w, Week_Number_w w)"
    using agg_group_fields(1,2) [OF a] by (simp add: prod_eq_iff)
  show ?thesis using a i n unfolding k [symmetric] by simp
qed

text \<open>
  C5. The weekly table has one row for each (Year, Week_Number) pair of the daily table,
  in strictly ascending order of the pair. In a row, \<^verbatim>\<open>in_mean\<close> and \<^verbatim>\<open>out_mean\<close> are
  sum over count of the group's values (missing values are left out, as pandas does), and
  \<^verbatim>\<open>Year_Start\<close> and \<^verbatim>\<open>Month_Start\<close> are the greatest flag of the group: 256 if a day
  of the week has 256, else 0.
\<close>

theorem weekly_aggregation:
  assumes ok: "groupby_agg df = Inr weekly_df"
  shows "set (map (\<lambda>w. (Year_w w, Week_Number_w w)) weekly_df)
           = {(y, n). \<exists>d\<in>set df. Year d = Some y \<and> Week_Number d = Some n}
       \<and> sorted_wrt (\<lambda>a b. Year_w a < Year_w b \<or> (Year_w a = Year_w b \<and> Week_Number_w a < Week_Number_w b))
           weekly_df
       \<and> (\<forall>w\<in>set weekly_df.
            let g = filter (\<lambda>d. Year d = Some (Year_w w) \<and> Week_Number d = Some (Week_Number_w w)) df
            in g \<noteq> []
             \<and> in_mean w = (if numbers (map in_col g) = [] then None
                            else Some (sum_list (numbers (map in_col g)) / real (length (numbers (map in_col g)))))
             \<and> out_mean w = (if numbers (map out_col g) = [] then None
                            else Some (sum_list (numbers (map out_col g)) / real (length (numbers (map out_col g)))))
             \<and> Year_Start_w w = Max (set (map Year_Start g))
             \<and> Month_Start_w w = Max (set (map Month_Start g))
             \<and> ((\<forall>d\<in>set g. Year_Start d = 0 \<or> Year_Start d = 256) \<longrightarrow>
                  Year_Start_w w = (if \<exists>d\<in>set g. Year_Start d = 256 then 256 else 0))
             \<and> ((\<forall>d\<in>set g. Month_Start d = 0 \<or> Month_Start d = 256) \<longrightarrow>
                  Month_Start_w w = (if \<exists>d\<in>set g. Month_Start d = 256 then 256 else 0)))"
proof (intro conjI ballI)
  note keys = groupby_agg_keys [OF ok]
  show "set (map (\<lambda>w. (Year_w w, Week_Number_w w)) weekly_df)
           = {(y, n). \<exists>d\<in>set df. Year d = Some y \<and> Week_Number d = Some n}"
    unfolding keys set_group_keys by (auto simp: group_key_Some)
  have "sorted_wrt (\<lambda>a b. fst a < fst b \<or> (fst a = fst b \<and> snd a < snd b))
          (map (\<lambda>w. (Year_w w, Week_Number_w w)) weekly_df)"
    unfolding keys by (rule strict_group_keys)
  then show "sorted_wrt (\<lambda>a b. Year_w a < Year_w b \<or> (Year_w a = Year_w b \<and> Week_Number_w a < Week_Number_w b))
           weekly_df"
    by (simp add: sorted_wrt_map)
next
  fix w assume w: "w \<in> set weekly_df"
  define g where "g = filter (\<lambda>d. Year d = Some (Year_w w) \<and> Week_Number d = Some (Week_Number_w w)) df"
  have gg: "get_group df (Year_w w, Week_Number_w w) = g"
    by (simp add: get_group_filter g_def)
  from groupby_agg_row [OF ok w] have k: "(Year_w w, Week_Number_w w) \<in> set (group_keys df)"
    and a: "agg_group (Year_w w, Week_Number_w w) g = Inr w"
    by (simp_all add: gg)
  have ne: "g \<noteq> []" using get_group_nonempty [OF k] gg by simp
  note f = agg_group_fields [OF a]
  have im: "in_mean w = (if numbers (map in_col g) = [] then None
                            else Some (sum_list (numbers (map in_col g)) / real (length (numbers (map in_col g)))))"
    by (rule mean_value [OF f(3)])
  have om: "out_mean w = (if numbers (map out_col g) = [] then None
                            else Some (sum_list (numbers (map out_col g)) / real (length (numbers (map out_col g)))))"
    by (rule mean_value [OF f(4)])
  have ys: "Year_Start_w w = Max (set (map Year_Start g))"
    using f(5) ne by (simp add: max_flag_Max del: set_map)
  have ms: "Month_Start_w w = Max (set (map Month_Start g))"
    using f(6) ne by (simp add: max_flag_Max del: set_map)
  have ys2: "(\<forall>d\<in>set g. Year_Start d = 0 \<or> Year_Start d = 256) \<longrightarrow>
                  Year_Start_w w = (if \<exists>d\<in>set g. Year_Start d = 256 then 256 else 0)"
  proof
    assume "\<forall>d\<in>set g. Year_Start d = 0 \<or> Year_Start d = 256"
    then have "Max (set (map Year_Start g)) = (if 256 \<in> set (map Year_Start g) then 256 else 0)"
      using ne by (intro Max_flag_256) auto
    then show "Year_Start_w w = (if \<exists>d\<in>set g. Year_Start d = 256 then 256 else 0)"
      unfolding ys by (auto simp: image_iff)
  qed
  have ms2: "(\<forall>d\<in>set g. Month_Start d = 0 \<or> Month_Start d = 256) \<longrightarrow>
                  Month_Start_w w = (if \<exists>d\<in>set g. Month_Start d = 256 then 256 else 0)"
  proof
    assume "\<forall>d\<in>set g. Month_Start d = 0 \<or> Month_Start d = 256"
    then have "Max (set (map Month_Start g)) = (if 256 \<in> set (map Month_Start g) then 256 else 0)"
      using ne by (intro Max_flag_256) auto
    then show "Month_Start_w w = (if \<exists>d\<in>set g. Month_Start d = 256 then 256 else 0)"
      unfolding ms by (auto simp: image_iff)
  qed
  show "let g = filter (\<lambda>d. Year d = Some (Year_w w) \<and> Week_Number d = Some (Week_Number_w w)) df
            in g \<noteq> []
             \<and> in_mean w = (if numbers (map in_col g) = [] then None
                            else Some (sum_list (numbers (map in_col g)) / real (length (numbers (map in_col g)))))
             \<and> out_mean w = (if numbers (map out_col g) = [] then None
                            else Some (sum_list (numbers (map out_col g)) / real (length (numbers (map out_col g)))))
             \<and> Year_Start_w w = Max (set (map Year_Start g))
             \<and> Month_Start_w w = Max (set (map Month_Start g))
             \<and> ((\<forall>d\<in>set g. Year_Start d = 0 \<or> Year_Start d = 256) \<longrightarrow>
                  Year_Start_w w = (if \<exists>d\<in>set g. Year_Start d = 256 then 256 else 0))
             \<and> ((\<forall>d\<in>set g. Month_Start d = 0 \<or> Month_Start d = 256) \<longrightarrow>
                  Month_Start_w w = (if \<exists>d\<in>set g. Month_Start d = 256 then 256 else 0))"
    unfolding Let_def g_def [symmetric] using ne im om ys ms ys2 ms2 by blast
qed

lemma mean_returns: "\<not> list_ex is_txt cs \<Longrightarrow> \<exists>m. mean cs = Inr m"
  by (simp add: mean_def)

lemma agg_groups_returns:
  assumes "\<not> list_ex is_txt (map in_col df)" "\<not> list_ex is_txt (map out_col df)"
  shows "\<exists>ws. agg_groups df ks = Inr ws"
proof (induction ks)
  case Nil
  then show ?case by simp
next
  case (Cons k ks)
  have "\<not> list_ex is_txt (map in_col (get_group df k))"
    "\<not> list_ex is_txt (map out_col (get_group df k))"
    using assms by (auto simp: list_ex_iff get_group_def)
  then obtain im om where "mean (map in_col (get_group df k)) = Inr im"
    "mean (map out_col (get_group df k)) = Inr om"
    using mean_returns by blast
  then have "\<exists>w. agg_group k (get_group df k) = Inr w" by (simp add: agg_group_def)
  then show ?case using Cons by auto
qed

lemma groupby_agg_returns:
  assumes "\<not> list_ex is_txt (map in_col df)" "\<not> list_ex is_txt (map out_col df)"
  shows "\<exists>weekly_df. groupby_agg df = Inr weekly_df"
  unfolding groupby_agg_def by (rule agg_groups_returns [OF assms])

lemma example_days_features:
  "example_days =
     [\<lparr>Time = Some \<lparr>year = 2024, month = 1, day = 29\<rparr>, in_col = Num 10, out_col = Num 1,
       Week_Start = 256, Month_Start = 0, Year_Start = 0,
       Week_Number = Some 5, Year = Some 2024\<rparr>,
      \<lparr>Time = Some \<lparr>year = 2024, month = 1, day = 31\<rparr>, in_col = Num 20, out_col = Num 2,
       Week_Start = 0, Month_Start = 0, Year_Start = 0,
       Week_Number = Some 5, Year = Some 2024\<rparr>,
      \<lparr>Time = Some \<lparr>year = 2024, month = 2, day = 1\<rparr>, in_col = Num 30, out_col = Num 3,
       Week_Start = 0, Month_Start = 256, Year_Start = 0,
       Week_Number = Some 5, Year = Some 2024\<rparr>,
      \<lparr>Time = Some \<lparr>year = 2024, month = 2, day = 5\<rparr>, in_col = Num 40, out_col = Num 4,
       Week_Start = 256, Month_Start = 0, Year_Start = 0,
       Week_Number = Some 6, Year = Some 2024\<rparr>]"
  by (simp add: example_days_def time_features_def calendar_defs Let_def upt_rec)

lemmas groupby_defs =
  groupby_agg_def group_keys_def sort_keys_def key_le_def get_group_def group_key_def
  agg_group_def mean_def

lemma groupby_example_days: "groupby_agg example_days = Inr example_weeks"
  unfolding example_days_features by (simp add: groupby_defs example_weeks_def)

text \<open>The means of 10, 20, 30 and of 1, 2, 3; one day of week 5 starts a month.\<close>

theorem weekly_aggregation_witness:
  "groupby_agg example_days = Inr example_weeks
   \<and> map (\<lambda>w. (Year_w w, Week_Number_w w)) example_weeks = [(2024, 5), (2024, 6)]
   \<and> in_mean (example_weeks ! 0) = Some 20 \<and> out_mean (example_weeks ! 0) = Some 2
   \<and> Year_Start_w (example_weeks ! 0) = 0 \<and> Month_Start_w (example_weeks ! 0) = 256
   \<and> Month_Start_w (example_weeks ! 1) = 0"
  using weekly_aggregation [OF groupby_example_days] groupby_example_days
  by (simp add: example_weeks_def)

section \<open>Scaling: properties\<close>

lemma col_max_value:
  assumes "\<not> list_ex is_txt cs" "numbers cs \<noteq> []"
  shows "col_max cs = Inr (Some (Max (set (numbers cs))))"
proof -
  obtain x xs where e: "numbers cs = x # xs" using assms(2) by (cases "numbers cs") auto
  have "fold max xs x = Max (set (x # xs))" by (simp only: Max.set_eq_fold)
  then show ?thesis using assms(1) e by (simp add: col_max_def)
qed

text \<open>
  C6. The factor is the greatest \<^verbatim>\<open>out\<close> of the daily table over its greatest \<^verbatim>\<open>in\<close>
  (when the columns hold numbers and the greatest \<^verbatim>\<open>in\<close> is not 0); maxima 100 and 1000
  give 10.
\<close>

theorem scaling_factor_max_ratio:
  assumes "\<not> list_ex is_txt (map in_col df)" "\<not> list_ex is_txt (map out_col df)"
    and "numbers (map in_col df) \<noteq> []" "numbers (map out_col df) \<noteq> []"
    and "Max (set (numbers (map in_col df))) \<noteq> 0"
  shows "scaling_factor df
           = Inr (Finite (Max (set (numbers (map out_col df))) / Max (set (numbers (map in_col df)))))
       \<and> (Max (set (numbers (map in_col df))) = 100 \<and> Max (set (numbers (map out_col df))) = 1000
            \<longrightarrow> scaling_factor df = Inr (Finite 10))"
  using assms(5) col_max_value [OF assms(1,3)] col_max_value [OF assms(2,4)]
  by (simp add: scaling_factor_def)

theorem scaling_factor_max_ratio_witness:
  "Max (set (numbers (map in_col maxima_days))) = 100
   \<and> Max (set (numbers (map out_col maxima_days))) = 1000
   \<and> scaling_factor maxima_days = Inr (Finite 10)"
proof -
  have n: "numbers (map in_col maxima_days) = [100, 50]"
    "numbers (map out_col maxima_days) = [3, 1000]"
    by (simp_all add: maxima_days_def time_features_def)
  have a: "\<not> list_ex is_txt (map in_col maxima_days)" "\<not> list_ex is_txt (map out_col maxima_days)"
    by (simp_all add: maxima_days_def time_features_def)
  have b: "numbers (map in_col maxima_days) \<noteq> []" "numbers (map out_col maxima_days) \<noteq> []"
    "Max (set (numbers (map in_col maxima_days))) \<noteq> 0"
    unfolding n by simp_all
  from scaling_factor_max_ratio [OF a b] show ?thesis unfolding n by simp
qed


lemma hd_linspace: "hd (linspace a b n) = a"
  by (simp add: linspace_def upt_conv_Cons del: upt_Suc)

lemma tl_linspace:
  "tl (linspace a b n) = map (\<lambda>i. a + real i * ((b - a) / real n)) [1..<Suc n]"
  by (simp add: linspace_def upt_conv_Cons del: upt_Suc)


lemma cut_bins_equal:
  "cut_bins n m m = linspace (m - (if m \<noteq> 0 then 0.001 * \<bar>m\<bar> else 0.001))
                             (m + (if m \<noteq> 0 then 0.001 * \<bar>m\<bar> else 0.001)) n"
  by (simp add: cut_bins_def)

lemma cut_bins_step:
  assumes "mn \<noteq> mx"
  shows "cut_bins n mn mx
           = (mn - (mx - mn) * 0.001) # map (\<lambda>i. mn + real i * ((mx - mn) / real n)) [1..<Suc n]"
  using assms unfolding cut_bins_def Let_def hd_linspace tl_linspace by simp

text \<open>The edges differ from each other, so the uniqueness check passes.\<close>

lemma distinct_steps:
  assumes "st \<noteq> 0"
  shows "distinct (map (\<lambda>i. a + real i * st) [m..<k])"
  using assms by (simp add: distinct_map inj_on_def)

lemma distinct_cut_bins:
  assumes "0 < n" "mn \<le> mx"
  shows "distinct (cut_bins n mn mx)"
proof (cases "mn = mx")
  case True
  define d where "d = (if mx \<noteq> 0 then 0.001 * \<bar>mx\<bar> else 0.001)"
  have d: "0 < d" by (simp add: d_def)
  have "(mx + d - (mx - d)) / real n \<noteq> 0" using d assms(1) by simp
  then have "distinct (linspace (mx - d) (mx + d) n)"
    unfolding linspace_def by (rule distinct_steps)
  then show ?thesis unfolding True cut_bins_equal d_def .
next
  case False
  define st where "st = (mx - mn) / real n"
  have st: "0 < st" using False assms by (simp add: st_def)
  have "0 < (mx - mn) * 0.001" using False assms(2) by simp
  then have "mn - (mx - mn) * 0.001 \<noteq> mn + real i * st" for i
    using st by (smt (verit) mult_nonneg_nonneg of_nat_0_le_iff)
  then have "mn - (mx - mn) * 0.001 \<notin> set (map (\<lambda>i. mn + real i * st) [1..<Suc n])"
    by auto
  moreover have "distinct (map (\<lambda>i. mn + real i * st) [1..<Suc n])"
    using st by (intro distinct_steps) simp
  ultimately show ?thesis unfolding cut_bins_step [OF False] st_def [symmetric] by simp
qed












lemma out_quant_scaled_returns:
  assumes "\<not> list_ex is_txt (map in_col df)" "\<not> list_ex is_txt (map out_col df)"
    and "present (map out_mean weekly_df) \<noteq> []"
  shows "\<exists>q. out_quant_scaled df weekly_df = Inr q"
proof -
  have "\<exists>m. col_max (map in_col df) = Inr m" "\<exists>m. col_max (map out_col df) = Inr m"
    using assms(1,2) by (auto simp: col_max_def split: list.splits)
  then have f: "\<exists>f. scaling_factor df = Inr f" by (auto simp: scaling_factor_def)
  obtain y ys where e: "present (map out_mean weekly_df) = y # ys"
    using assms(3) by (cases "present (map out_mean weekly_df)") auto
  have "Min (set (y # ys)) \<le> y" "y \<le> Max (set (y # ys))" by simp_all
  then have "fold min ys y \<le> fold max ys y"
    by (simp only: Min.set_eq_fold Max.set_eq_fold)
  then have "distinct (cut_bins 48 (fold min ys y) (fold max ys y))"
    by (intro distinct_cut_bins) simp_all
  moreover have "map out_mean weekly_df \<noteq> []" using assms(3) by auto
  ultimately have "\<exists>l. pd_cut 48 (map out_mean weekly_df) = Inr l"
    using e by (simp add: pd_cut_def)
  then show ?thesis using f by (auto simp: out_quant_scaled_def)
qed

text \<open>A series whose means are all missing stops the cell.\<close>

lemma out_quant_scaled_all_missing:
  assumes "weekly_df \<noteq> []" "present (map out_mean weekly_df) = []"
  shows "isl (out_quant_scaled df weekly_df)"
  using assms by (auto simp: out_quant_scaled_def pd_cut_def split: sum.splits)










section \<open>Trends: properties\<close>

lemma length_shift: "length (shift s) = length s"
  by (simp add: shift_def)

lemma nth_shift: "i < length s \<Longrightarrow> shift s ! i = (if i = 0 then None else s ! (i - 1))"
  by (cases i) (simp_all add: shift_def)

lemma nth_up_col:
  "i < length s \<Longrightarrow>
     series_where s (map2 gt s (shift s)) 0 ! i
       = (if gt (s ! i) (if i = 0 then None else s ! (i - 1)) then s ! i else Some 0)"
  by (simp add: series_where_def length_shift nth_shift)

lemma nth_down_col:
  "i < length s \<Longrightarrow>
     series_where s (map2 lt s (shift s)) 0 ! i
       = (if lt (s ! i) (if i = 0 then None else s ! (i - 1)) then s ! i else Some 0)"
  by (simp add: series_where_def length_shift nth_shift)

lemma length_trend_isolation: "length (trend_isolation ws) = length ws"
  by (simp add: trend_isolation_def Let_def)

lemma nth_trend_isolation_raw:
  assumes "i < length ws"
  shows "trend_isolation ws ! i =
     \<lparr>Year_w = Year_w (ws ! i),
                    Week_Number_w = Week_Number_w (ws ! i),
                    in_mean = in_mean (ws ! i),
                    out_mean = out_mean (ws ! i),
                    Year_Start_w = Year_Start_w (ws ! i),
                    Month_Start_w = Month_Start_w (ws ! i),
                    in_up = series_where (map in_mean ws) (map2 gt (map in_mean ws) (shift (map in_mean ws))) 0 ! i, 
                    in_down = series_where (map in_mean ws) (map2 lt (map in_mean ws) (shift (map in_mean ws))) 0 ! i,
                    out_up = series_where (map out_mean ws) (map2 gt (map out_mean ws) (shift (map out_mean ws))) 0 ! i, 
                    out_down = series_where (map out_mean ws) (map2 lt (map out_mean ws) (shift (map out_mean ws))) 0 ! i\<rparr>"
  using assms unfolding trend_isolation_def Let_def by (simp only: nth_map length_upt nth_upt diff_zero add_0)


lemma nth_trend_isolation:
  assumes "i < length ws"
  shows "in_up (trend_isolation ws ! i)
           = (if gt (in_mean (ws ! i)) (if i = 0 then None else in_mean (ws ! (i - 1))) then in_mean (ws ! i) else Some 0)"
    and "in_down (trend_isolation ws ! i)
           = (if lt (in_mean (ws ! i)) (if i = 0 then None else in_mean (ws ! (i - 1))) then in_mean (ws ! i) else Some 0)"
    and "out_up (trend_isolation ws ! i)
           = (if gt (out_mean (ws ! i)) (if i = 0 then None else out_mean (ws ! (i - 1))) then out_mean (ws ! i) else Some 0)"
    and "out_down (trend_isolation ws ! i)
           = (if lt (out_mean (ws ! i)) (if i = 0 then None else out_mean (ws ! (i - 1))) then out_mean (ws ! i) else Some 0)"
proof -
  have l: "i < length (map in_mean ws)" "i < length (map out_mean ws)" "i - 1 < length ws"
    using assms by simp_all
  show "in_up (trend_isolation ws ! i)
           = (if gt (in_mean (ws ! i)) (if i = 0 then None else in_mean (ws ! (i - 1))) then in_mean (ws ! i) else Some 0)"
    using nth_up_col [OF l(1)] assms l(3) by (simp add: nth_trend_isolation_raw)
  show "in_down (trend_isolation ws ! i)
           = (if lt (in_mean (ws ! i)) (if i = 0 then None else in_mean (ws ! (i - 1))) then in_mean (ws ! i) else Some 0)"
    using nth_down_col [OF l(1)] assms l(3) by (simp add: nth_trend_isolation_raw)
  show "out_up (trend_isolation ws ! i)
           = (if gt (out_mean (ws ! i)) (if i = 0 then None else out_mean (ws ! (i - 1))) then out_mean (ws ! i) else Some 0)"
    using nth_up_col [OF l(2)] assms l(3) by (simp add: nth_trend_isolation_raw)
  show "out_down (trend_isolation ws ! i)
           = (if lt (out_mean (ws ! i)) (if i = 0 then None else out_mean (ws ! (i - 1))) then out_mean (ws ! i) else Some 0)"
    using nth_down_col [OF l(2)] assms l(3) by (simp add: nth_trend_isolation_raw)
qed

lemma up_cases:
  "(if gt x p then x else Some 0)
     = (case (x, p) of (Some a, Some b) \<Rightarrow> if b < a then Some a else Some 0 | _ \<Rightarrow> Some 0)"
  by (cases x; cases p) simp_all

lemma down_cases:
  "(if lt x p then x else Some 0)
     = (case (x, p) of (Some a, Some b) \<Rightarrow> if a < b then Some a else Some 0 | _ \<Rightarrow> Some 0)"
  by (cases x; cases p) simp_all

text \<open>
  C4. Row i of the weekly table: \<^verbatim>\<open>in_up\<close> is the row's \<^verbatim>\<open>in_mean\<close> when it is greater
  than the \<^verbatim>\<open>in_mean\<close> of row i - 1 and 0 otherwise, \<^verbatim>\<open>in_down\<close> is the row's value when
  it is less and 0 otherwise; the same for \<^verbatim>\<open>out_mean\<close>. Row 0 has no row before it and
  has 0 in the four columns; equal values give 0 in both.
\<close>

theorem trend_columns:
  assumes "i < length weekly_df"
  shows "in_up (trend_isolation weekly_df ! i)
           = (case (in_mean (weekly_df ! i), if i = 0 then None else in_mean (weekly_df ! (i - 1))) of
                (Some a, Some b) \<Rightarrow> if b < a then Some a else Some 0
              | _ \<Rightarrow> Some 0)
       \<and> in_down (trend_isolation weekly_df ! i)
           = (case (in_mean (weekly_df ! i), if i = 0 then None else in_mean (weekly_df ! (i - 1))) of
                (Some a, Some b) \<Rightarrow> if a < b then Some a else Some 0
              | _ \<Rightarrow> Some 0)
       \<and> out_up (trend_isolation weekly_df ! i)
           = (case (out_mean (weekly_df ! i), if i = 0 then None else out_mean (weekly_df ! (i - 1))) of
                (Some a, Some b) \<Rightarrow> if b < a then Some a else Some 0
              | _ \<Rightarrow> Some 0)
       \<and> out_down (trend_isolation weekly_df ! i)
           = (case (out_mean (weekly_df ! i), if i = 0 then None else out_mean (weekly_df ! (i - 1))) of
                (Some a, Some b) \<Rightarrow> if a < b then Some a else Some 0
              | _ \<Rightarrow> Some 0)
       \<and> (i = 0 \<longrightarrow>
            in_up (trend_isolation weekly_df ! i) = Some 0
          \<and> in_down (trend_isolation weekly_df ! i) = Some 0
          \<and> out_up (trend_isolation weekly_df ! i) = Some 0
          \<and> out_down (trend_isolation weekly_df ! i) = Some 0)
       \<and> (0 < i \<and> in_mean (weekly_df ! i) = in_mean (weekly_df ! (i - 1)) \<longrightarrow>
            in_up (trend_isolation weekly_df ! i) = Some 0
          \<and> in_down (trend_isolation weekly_df ! i) = Some 0)
       \<and> (0 < i \<and> out_mean (weekly_df ! i) = out_mean (weekly_df ! (i - 1)) \<longrightarrow>
            out_up (trend_isolation weekly_df ! i) = Some 0
          \<and> out_down (trend_isolation weekly_df ! i) = Some 0)"
proof -
  have e: "\<not> gt x x" "\<not> lt x x" for x
    by (cases x; simp)+
  have 1: "in_up (trend_isolation weekly_df ! i)
           = (case (in_mean (weekly_df ! i), if i = 0 then None else in_mean (weekly_df ! (i - 1))) of
                (Some a, Some b) \<Rightarrow> if b < a then Some a else Some 0
              | _ \<Rightarrow> Some 0)"
    unfolding nth_trend_isolation [OF assms] up_cases by (rule refl)
  have 2: "in_down (trend_isolation weekly_df ! i)
           = (case (in_mean (weekly_df ! i), if i = 0 then None else in_mean (weekly_df ! (i - 1))) of
                (Some a, Some b) \<Rightarrow> if a < b then Some a else Some 0
              | _ \<Rightarrow> Some 0)"
    unfolding nth_trend_isolation [OF assms] down_cases by (rule refl)
  have 3: "out_up (trend_isolation weekly_df ! i)
           = (case (out_mean (weekly_df ! i), if i = 0 then None else out_mean (weekly_df ! (i - 1))) of
                (Some a, Some b) \<Rightarrow> if b < a then Some a else Some 0
              | _ \<Rightarrow> Some 0)"
    unfolding nth_trend_isolation [OF assms] up_cases by (rule refl)
  have 4: "out_down (trend_isolation weekly_df ! i)
           = (case (out_mean (weekly_df ! i), if i = 0 then None else out_mean (weekly_df ! (i - 1))) of
                (Some a, Some b) \<Rightarrow> if a < b then Some a else Some 0
              | _ \<Rightarrow> Some 0)"
    unfolding nth_trend_isolation [OF assms] down_cases by (rule refl)
  have 5: "i = 0 \<longrightarrow>
            in_up (trend_isolation weekly_df ! i) = Some 0
          \<and> in_down (trend_isolation weekly_df ! i) = Some 0
          \<and> out_up (trend_isolation weekly_df ! i) = Some 0
          \<and> out_down (trend_isolation weekly_df ! i) = Some 0"
    unfolding nth_trend_isolation [OF assms] by simp
  have 6: "0 < i \<and> in_mean (weekly_df ! i) = in_mean (weekly_df ! (i - 1)) \<longrightarrow>
            in_up (trend_isolation weekly_df ! i) = Some 0
          \<and> in_down (trend_isolation weekly_df ! i) = Some 0"
    unfolding nth_trend_isolation [OF assms] by (auto simp: e)
  have 7: "0 < i \<and> out_mean (weekly_df ! i) = out_mean (weekly_df ! (i - 1)) \<longrightarrow>
            out_up (trend_isolation weekly_df ! i) = Some 0
          \<and> out_down (trend_isolation weekly_df ! i) = Some 0"
    unfolding nth_trend_isolation [OF assms] by (auto simp: e)
  show ?thesis using 1 2 3 4 5 6 7 by (intro conjI)
qed

lemmas trend_defs = trend_isolation_def series_where_def shift_def

lemma trend_isolation_trend_weeks:
  "map (\<lambda>w. (in_up w, in_down w, out_up w, out_down w)) (trend_isolation trend_weeks)
     = [(Some 0, Some 0, Some 0, Some 0),
        (Some 4, Some 0, Some 0, Some 0),
        (Some 0, Some 2, Some 0, Some 3)]"
  by (simp add: trend_defs trend_weeks_def upt_rec)

text \<open>The \<^verbatim>\<open>out_mean\<close> sequence 5, 5, 3: no trend in rows 0 and 1, a fall to 3 in row 2.\<close>

theorem trend_columns_witness:
  "length trend_weeks = 3
   \<and> out_up (trend_isolation trend_weeks ! 0) = Some 0
   \<and> out_down (trend_isolation trend_weeks ! 0) = Some 0
   \<and> out_up (trend_isolation trend_weeks ! 1) = Some 0
   \<and> out_down (trend_isolation trend_weeks ! 1) = Some 0
   \<and> out_up (trend_isolation trend_weeks ! 2) = Some 0
   \<and> out_down (trend_isolation trend_weeks ! 2) = Some 3
   \<and> in_up (trend_isolation trend_weeks ! 1) = Some 4
   \<and> in_down (trend_isolation trend_weeks ! 2) = Some 2"
proof -
  have l: "0 < length trend_weeks" "1 < length trend_weeks" "2 < length trend_weeks"
    by (simp_all add: trend_weeks_def)
  from trend_columns [OF l(1)] trend_columns [OF l(2)] trend_columns [OF l(3)]
  show ?thesis by (simp add: trend_weeks_def)
qed

lemma not_up_and_down:
  "(if gt x p then x else Some 0) = Some 0 \<or> (if lt x p then x else Some 0) = Some 0"
  by (cases x; cases p) simp_all

text \<open>
  C10. In every row after the trend cell, \<^verbatim>\<open>in_up\<close> or \<^verbatim>\<open>in_down\<close> is 0, and
  \<^verbatim>\<open>out_up\<close> or \<^verbatim>\<open>out_down\<close> is 0.
\<close>

theorem trend_exclusive:
  "\<forall>w\<in>set (trend_isolation weekly_df).
     (in_up w = Some 0 \<or> in_down w = Some 0) \<and> (out_up w = Some 0 \<or> out_down w = Some 0)"
proof
  fix w assume "w \<in> set (trend_isolation weekly_df)"
  then obtain i where i: "i < length weekly_df" and w: "w = trend_isolation weekly_df ! i"
    by (auto simp: in_set_conv_nth length_trend_isolation)
  have 1: "in_up w = Some 0 \<or> in_down w = Some 0"
    unfolding w nth_trend_isolation [OF i] by (rule not_up_and_down)
  have 2: "out_up w = Some 0 \<or> out_down w = Some 0"
    unfolding w nth_trend_isolation [OF i] by (rule not_up_and_down)
  show "(in_up w = Some 0 \<or> in_down w = Some 0) \<and> (out_up w = Some 0 \<or> out_down w = Some 0)"
    using 1 2 by blast
qed

theorem trend_exclusive_witness:
  "set (trend_isolation trend_weeks) \<noteq> {}
   \<and> (in_up (trend_isolation trend_weeks ! 2) = Some 0
        \<or> in_down (trend_isolation trend_weeks ! 2) = Some 0)
   \<and> (out_up (trend_isolation trend_weeks ! 2) = Some 0
        \<or> out_down (trend_isolation trend_weeks ! 2) = Some 0)"
proof -
  have m: "trend_isolation trend_weeks ! 2 \<in> set (trend_isolation trend_weeks)"
    by (rule nth_mem) (simp add: length_trend_isolation trend_weeks_def)
  from trend_exclusive [of trend_weeks] m show ?thesis by auto
qed

section \<open>The written file: properties\<close>

lemma index_of_Some: "index_of c xs = Some i \<Longrightarrow> i < length xs \<and> xs ! i = c"
  by (induction xs arbitrary: i) (auto split: if_splits)

lemma index_of_None: "index_of c xs = None \<longleftrightarrow> c \<notin> set xs"
  by (induction xs) auto

lemma index_all_length: "index_all names cols = Inr is \<Longrightarrow> length is = length names"
  by (induction names arbitrary: "is") (auto split: option.splits sum.splits)

lemma index_all_total:
  "set names \<subseteq> set cols \<Longrightarrow> \<exists>is. index_all names cols = Inr is"
proof (induction names)
  case Nil
  then show ?case by simp
next
  case (Cons n ns)
  then obtain i where "index_of n cols = Some i"
    using index_of_None [of n cols] by (cases "index_of n cols") auto
  moreover obtain "is" where "index_all ns cols = Inr is" using Cons by auto
  ultimately show ?case by simp
qed

lemma finalize_and_write_shape:
  assumes "set columns_to_keep \<subseteq> set (columns (rename [(''in_mean'', ''in''), (''out_mean'', ''out'')] weekly_df))"
  shows "\<exists>out. finalize_and_write weekly_df = Inr out
           \<and> out_header out = columns_to_keep
           \<and> length (out_lines out) = length (rows weekly_df)
           \<and> (\<forall>l\<in>set (out_lines out). length l = 8)"
proof -
  from index_all_total [OF assms] obtain "is" where
    i: "index_all columns_to_keep (columns (rename [(''in_mean'', ''in''), (''out_mean'', ''out'')] weekly_df)) = Inr is"
    by blast
  have l: "length is = 8" using index_all_length [OF i] by (simp add: columns_to_keep_def)
  have r: "rows (rename m weekly_df) = rows weekly_df" for m by (simp add: rename_def)
  show ?thesis using i l
    by (simp add: finalize_and_write_def select_columns_def to_csv_def Let_def r)
qed

lemma index_all_missing: "\<not> set names \<subseteq> set cols \<Longrightarrow> isl (index_all names cols)"
proof (induction names)
  case Nil
  then show ?case by simp
next
  case (Cons n ns)
  show ?case
  proof (cases "index_of n cols")
    case None
    then show ?thesis by simp
  next
    case (Some i)
    then have "n \<in> set cols" using index_of_None [of n cols] by auto
    then have "\<not> set ns \<subseteq> set cols" using Cons.prems by auto
    from Cons.IH [OF this] show ?thesis using Some by (auto split: sum.splits)
  qed
qed

text \<open>A weekly table that lacks one of the eight columns stops the cell with \<^verbatim>\<open>KeyError\<close>.\<close>

lemma finalize_and_write_missing:
  assumes "\<not> set columns_to_keep
             \<subseteq> set (columns (rename [(''in_mean'', ''in''), (''out_mean'', ''out'')] weekly_df))"
  shows "isl (finalize_and_write weekly_df)"
  using index_all_missing [OF assms]
  by (auto simp: finalize_and_write_def select_columns_def Let_def split: sum.splits)

lemma finalize_weekly_frame:
  "finalize_and_write (weekly_frame weekly_df) =
     Inr \<lparr>out_header = [''in'', ''out'', ''Month_Start'', ''Year_Start'', ''in_up'', ''in_down'', ''out_up'', ''out_down''],
          out_lines = map (\<lambda>w. [to_cell (in_mean w), to_cell (out_mean w),
                                 Num (of_int (Month_Start_w w)), Num (of_int (Year_Start_w w)),
                                 to_cell (in_up w), to_cell (in_down w),
                                 to_cell (out_up w), to_cell (out_down w)]) weekly_df\<rparr>"
  by (simp add: finalize_and_write_def weekly_frame_def rename_def select_columns_def
      columns_to_keep_def to_csv_def)

text \<open>
  C9. The file written from the weekly table has the header
  \<^verbatim>\<open>in,out,Month_Start,Year_Start,in_up,in_down,out_up,out_down\<close>; every line has these
  eight values of one weekly row and nothing before them (no row number, no
  \<^verbatim>\<open>Year\<close>, no \<^verbatim>\<open>Week_Number\<close>); there are as many lines as (Year, Week_Number) pairs
  in the daily table.
\<close>

theorem written_file_schema:
  assumes "groupby_agg df = Inr weekly_df"
  shows "finalize_and_write (weekly_frame (trend_isolation weekly_df))
           = Inr \<lparr>out_header = [''in'', ''out'', ''Month_Start'', ''Year_Start'',
                                ''in_up'', ''in_down'', ''out_up'', ''out_down''],
                  out_lines = map (\<lambda>w. [to_cell (in_mean w), to_cell (out_mean w),
                                         Num (of_int (Month_Start_w w)), Num (of_int (Year_Start_w w)),
                                         to_cell (in_up w), to_cell (in_down w),
                                         to_cell (out_up w), to_cell (out_down w)])
                                  (trend_isolation weekly_df)\<rparr>
       \<and> length (trend_isolation weekly_df)
           = card {(y, n). \<exists>d\<in>set df. Year d = Some y \<and> Week_Number d = Some n}"
proof -
  have "length weekly_df = length (group_keys df)"
    using groupby_agg_keys [OF assms] by (metis length_map)
  also have "\<dots> = card (set (group_keys df))"
    using distinct_group_keys [of df] by (simp add: distinct_card)
  also have "set (group_keys df) = {(y, n). \<exists>d\<in>set df. Year d = Some y \<and> Week_Number d = Some n}"
    unfolding set_group_keys by (auto simp: group_key_Some)
  finally show ?thesis
    by (simp add: finalize_weekly_frame length_trend_isolation)
qed

theorem written_file_schema_witness:
  "groupby_agg example_days = Inr example_weeks
   \<and> finalize_and_write (weekly_frame (trend_isolation example_weeks))
       = Inr \<lparr>out_header = [''in'', ''out'', ''Month_Start'', ''Year_Start'',
                            ''in_up'', ''in_down'', ''out_up'', ''out_down''],
              out_lines = [[Num 20, Num 2, Num 256, Num 0, Num 0, Num 0, Num 0, Num 0],
                           [Num 40, Num 4, Num 0, Num 0, Num 40, Num 0, Num 4, Num 0]]\<rparr>"
proof -
  have t: "trend_isolation example_weeks =
     [\<lparr>Year_w = 2024, Week_Number_w = 5, in_mean = Some 20, out_mean = Some 2,
       Year_Start_w = 0, Month_Start_w = 256,
       in_up = Some 0, in_down = Some 0, out_up = Some 0, out_down = Some 0\<rparr>,
      \<lparr>Year_w = 2024, Week_Number_w = 6, in_mean = Some 40, out_mean = Some 4,
       Year_Start_w = 0, Month_Start_w = 0,
       in_up = Some 40, in_down = Some 0, out_up = Some 4, out_down = Some 0\<rparr>]"
    by (simp add: trend_defs example_weeks_def upt_rec)
  from written_file_schema [OF groupby_example_days] show ?thesis
    using groupby_example_days unfolding t by (simp add: to_cell_def)
qed

end
